theory Spec2Isabelle
  imports Main "HOL-Library.AList" "HOL-Library.Multiset"
begin

section \<open>The crossword solver of generate.py\<close>

text \<open>
  The class \<open>CrosswordCreator\<close> of \<open>generate.py\<close> fills a crossword grid by node
  consistency, one pass of AC-3 and backtracking search. Its methods are embedded here
  as functions that take the puzzle and the domain store and return the new store;
  every exception the Python can raise is a value \<open>Inl e\<close>.
\<close>

subsection \<open>Data model\<close>

datatype error = KeyError | TypeError | IndexError | ValueError

datatype direction = ACROSS | DOWN

text \<open>
  Modelled from the spec: the class \<open>Variable\<close> of the module \<open>crossword\<close>, which is
  imported by \<open>generate.py\<close> and is not among the sources. A variable is a word slot:
  origin cell (row \<open>i\<close>, column \<open>j\<close>), direction and required length; its identity is
  structural. The source reads \<open>var.i\<close>, \<open>var.j\<close> and \<open>var.length\<close>.
\<close>

datatype variable =
  Variable (var_i: int) (var_j: int) (var_direction: direction) (var_length: int)

text \<open>
  Modelled from the spec: the class \<open>Crossword\<close> of the same module (the Puzzle Model).
  The source reads \<open>crossword.variables\<close> and \<open>crossword.words\<close> (Python sets: the
  lists give the order in which a loop visits them), \<open>crossword.overlaps[x, y]\<close> (a
  dictionary whose values are \<open>None\<close> or a pair of indices: a missing key is \<open>None\<close>
  here, a stored \<open>None\<close> is \<open>Some None\<close>) and \<open>crossword.neighbors(x)\<close> (a set, again
  as the list of its iteration order). Overlap indices are positions in a word, hence
  natural numbers.
\<close>

record crossword =
  variables :: "variable list"
  words :: "string list"
  overlaps :: "variable \<times> variable \<Rightarrow> (nat \<times> nat) option option"
  neighbors :: "variable \<Rightarrow> variable list"

text \<open>
  \<open>self.domains\<close> is a dictionary from variables to collections of words (sets at
  first, lists once \<open>revise\<close> has rebuilt them); a dictionary is an association list
  in insertion order, written with \<open>AList.update\<close> (an existing key keeps its place) and
  read with \<open>map_of\<close>. An assignment is a dictionary from variables to words.
  The state of the creator is the domain store together with the number of draws made
  from the random generator so far.
\<close>

type_synonym domain_store = "(variable \<times> string list) list"

type_synonym assignment = "(variable \<times> string) list"

record state =
  domains :: domain_store
  rng_draws :: nat

text \<open>\<open>word[k]\<close> for a non-negative index: IndexError beyond the end of the word.\<close>

definition char_at :: "string \<Rightarrow> nat \<Rightarrow> error + char" where
  "char_at word k = (if k < length word then Inr (word ! k) else Inl IndexError)"

text \<open>\<open>d[key]\<close> on a dictionary: KeyError when the key is absent.\<close>

definition lookup :: "('k \<times> 'v) list \<Rightarrow> 'k \<Rightarrow> error + 'v" where
  "lookup d key = (case map_of d key of None \<Rightarrow> Inl KeyError | Some v \<Rightarrow> Inr v)"

subsection \<open>The constructor\<close>

text \<open>
  \<open>self.domains = {var: self.crossword.words.copy() for var in self.crossword.variables}\<close>
\<close>

definition init_domains :: "crossword \<Rightarrow> domain_store" where
  "init_domains cw = fold (\<lambda>var d. AList.update var (words cw) d) (variables cw) []"

definition init :: "crossword \<Rightarrow> state" where
  "init cw = \<lparr>domains = init_domains cw, rng_draws = 0\<rparr>"

subsection \<open>enforce_node_consistency\<close>

text \<open>
  The inner loop: for each word of \<open>self.domains[var]\<close> whose length differs from
  \<open>var.length\<close>, \<open>newDomains[var].remove(word)\<close>, which raises KeyError when the word
  is not (or no longer) there.
\<close>

fun remove_words :: "variable \<Rightarrow> string list \<Rightarrow> string list \<Rightarrow> error + string list" where
  "remove_words var [] new = Inr new"
| "remove_words var (word # rest) new =
     (if var_length var \<noteq> int (length word)
      then (if word \<in> set new then remove_words var rest (remove1 word new)
            else Inl KeyError)
      else remove_words var rest new)"

text \<open>The outer loop over \<open>self.crossword.variables\<close>; \<open>old\<close> is \<open>self.domains\<close>.\<close>

fun node_loop :: "domain_store \<Rightarrow> variable list \<Rightarrow> domain_store \<Rightarrow> error + domain_store" where
  "node_loop old [] newDomains = Inr newDomains"
| "node_loop old (var # rest) newDomains =
     (case lookup old var of Inl e \<Rightarrow> Inl e
      | Inr dom_var \<Rightarrow>
        (case lookup newDomains var of Inl e \<Rightarrow> Inl e
         | Inr new_var \<Rightarrow>
           (case remove_words var dom_var new_var of Inl e \<Rightarrow> Inl e
            | Inr new_var' \<Rightarrow> node_loop old rest (AList.update var new_var' newDomains))))"

definition enforce_node_consistency :: "crossword \<Rightarrow> domain_store \<Rightarrow> error + domain_store" where
  "enforce_node_consistency cw ds = node_loop ds (variables cw) ds"

subsection \<open>revise\<close>

text \<open>
  The innermost loop of \<open>revise\<close>: the words of \<open>self.domains[y]\<close> that agree with
  \<open>wordX\<close> at the overlap. \<open>overlap[0]\<close> raises TypeError when the overlap is \<open>None\<close>.
\<close>

fun overlapWords :: "(nat \<times> nat) option \<Rightarrow> string \<Rightarrow> string list \<Rightarrow> error + string list" where
  "overlapWords overlap wordX [] = Inr []"
| "overlapWords overlap wordX (wordY # rest) =
     (case overlap of None \<Rightarrow> Inl TypeError
      | Some (ix, iy) \<Rightarrow>
        (case char_at wordX ix of Inl e \<Rightarrow> Inl e
         | Inr cx \<Rightarrow>
           (case char_at wordY iy of Inl e \<Rightarrow> Inl e
            | Inr cy \<Rightarrow>
              (case overlapWords overlap wordX rest of Inl e \<Rightarrow> Inl e
               | Inr ws \<Rightarrow> Inr (if cx = cy then wordY # ws else ws)))))"

text \<open>The loop over \<open>self.domains[x]\<close>, which builds the list \<open>domain\<close>.\<close>

fun revise_loop ::
  "(nat \<times> nat) option \<Rightarrow> domain_store \<Rightarrow> variable \<Rightarrow> string list \<Rightarrow> error + string list" where
  "revise_loop overlap ds y [] = Inr []"
| "revise_loop overlap ds y (wordX # rest) =
     (case lookup ds y of Inl e \<Rightarrow> Inl e
      | Inr dom_y \<Rightarrow>
        (case overlapWords overlap wordX dom_y of Inl e \<Rightarrow> Inl e
         | Inr ows \<Rightarrow>
           (case revise_loop overlap ds y rest of Inl e \<Rightarrow> Inl e
            | Inr domain \<Rightarrow> Inr (if length ows \<noteq> 0 then wordX # domain else domain))))"

text \<open>
  \<open>revise\<close> stores the new list in \<open>self.domains[x]\<close> and only then compares
  \<open>len(domain)\<close> with \<open>len(self.domains[x])\<close>: the comparison reads the store after the
  assignment, as the source does.
\<close>

definition revise :: "crossword \<Rightarrow> variable \<Rightarrow> variable \<Rightarrow> domain_store \<Rightarrow> error + (bool \<times> domain_store)" where
  "revise cw x y ds =
     (case overlaps cw (x, y) of None \<Rightarrow> Inl KeyError
      | Some overlap \<Rightarrow>
        (case lookup ds x of Inl e \<Rightarrow> Inl e
         | Inr dom_x \<Rightarrow>
           (case revise_loop overlap ds y dom_x of Inl e \<Rightarrow> Inl e
            | Inr domain \<Rightarrow>
              (let ds' = AList.update x domain ds in
               case lookup ds' x of Inl e \<Rightarrow> Inl e
               | Inr dom_x' \<Rightarrow> Inr (length domain \<noteq> length dom_x', ds')))))"

subsection \<open>ac3\<close>

text \<open>The default seeding: every pair \<open>(x, y)\<close> with \<open>y\<close> a neighbour of \<open>x\<close>.\<close>

definition all_arcs :: "crossword \<Rightarrow> (variable \<times> variable) list" where
  "all_arcs cw = concat (map (\<lambda>x. map (\<lambda>y. (x, y)) (neighbors cw x)) (variables cw))"

text \<open>
  The arcs appended after a revision of \<open>(x, y)\<close> that reported a change:
  \<open>(x, z)\<close> for the neighbours \<open>z\<close> of \<open>x\<close> with \<open>z.i != y.i and z.j != y.j\<close>.
\<close>

definition requeue :: "crossword \<Rightarrow> variable \<Rightarrow> variable \<Rightarrow> (variable \<times> variable) list" where
  "requeue cw x y =
     map (\<lambda>z. (x, z)) (filter (\<lambda>z. var_i z \<noteq> var_i y \<and> var_j z \<noteq> var_j y) (neighbors cw x))"

text \<open>
  One iteration of the \<open>while\<close> loop on a non-empty queue: \<open>queue.pop(0)\<close> gave
  \<open>temp\<close> and left \<open>queue\<close>. The iteration either returns (\<open>return False\<close>) or goes
  on with a queue and a store.
\<close>

datatype step =
  Return bool domain_store
| Continue "(variable \<times> variable) list" domain_store

definition ac3_step ::
  "crossword \<Rightarrow> variable \<times> variable \<Rightarrow> (variable \<times> variable) list \<Rightarrow> domain_store \<Rightarrow> error + step" where
  "ac3_step cw temp queue ds =
     (case revise cw (fst temp) (snd temp) ds of Inl e \<Rightarrow> Inl e
      | Inr (revised, ds') \<Rightarrow>
        (if revised
         then (case lookup ds' (fst temp) of Inl e \<Rightarrow> Inl e
               | Inr dom_x \<Rightarrow>
                 (if length dom_x = 0 then Inr (Return False ds')
                  else Inr (Continue (queue @ requeue cw (fst temp) (snd temp)) ds')))
         else Inr (Continue queue ds')))"

text \<open>
  The value that \<open>revise\<close> returns is \<open>len(domain) != len(self.domains[x])\<close> read after
  \<open>self.domains[x] = domain\<close>: it is never \<open>True\<close>. So an iteration never appends to
  the queue, which is why the loop below terminates.
\<close>

lemma lookup_update_same: "lookup (AList.update k v d) k = Inr v"
  by (simp add: lookup_def update_conv')

lemma revise_result_False:
  assumes "revise cw x y ds = Inr (revised, ds')"
  shows "\<not> revised"
  using assms
  by (auto simp: revise_def lookup_update_same Let_def split: option.splits sum.splits)

lemma ac3_step_Continue:
  assumes "ac3_step cw temp queue ds = Inr (Continue queue' ds')"
  shows "queue' = queue"
  using assms revise_result_False [of cw "fst temp" "snd temp" ds]
  by (auto simp: ac3_step_def split: sum.splits if_splits)

function ac3_loop ::
  "crossword \<Rightarrow> (variable \<times> variable) list \<Rightarrow> domain_store \<Rightarrow> error + (bool \<times> domain_store)" where
  "ac3_loop cw [] ds = Inr (True, ds)"
| "ac3_loop cw (temp # queue) ds =
     (case ac3_step cw temp queue ds of Inl e \<Rightarrow> Inl e
      | Inr (Return b ds') \<Rightarrow> Inr (b, ds')
      | Inr (Continue queue' ds') \<Rightarrow> ac3_loop cw queue' ds')"
  by pat_completeness auto
termination
  by (relation "measure (\<lambda>(cw, queue, ds). length queue)")
     (auto dest: ac3_step_Continue)

text \<open>\<open>ac3(arcs=None)\<close>: the queue starts as all arcs, or as a copy of \<open>arcs\<close>.\<close>

definition ac3 ::
  "crossword \<Rightarrow> (variable \<times> variable) list option \<Rightarrow> domain_store \<Rightarrow> error + (bool \<times> domain_store)" where
  "ac3 cw arcs ds =
     ac3_loop cw (case arcs of None \<Rightarrow> all_arcs cw | Some given \<Rightarrow> given) ds"

subsection \<open>assignment_complete and consistent\<close>

fun assignment_complete_loop :: "variable list \<Rightarrow> assignment \<Rightarrow> bool" where
  "assignment_complete_loop [] a = True"
| "assignment_complete_loop (var # rest) a =
     (if var \<notin> set (map fst a) then False else assignment_complete_loop rest a)"

definition assignment_complete :: "crossword \<Rightarrow> assignment \<Rightarrow> bool" where
  "assignment_complete cw a = assignment_complete_loop (variables cw) a"

text \<open>
  The loop over the neighbours of \<open>var\<close> in \<open>consistent\<close>. \<open>Inr False\<close> is the
  \<open>return False\<close>; \<open>Inr True\<close> is the loop running to its end. A word is never
  \<open>None\<close>, so the \<open>continue\<close> is never taken, and \<open>assignment[neighbor]\<close> raises
  KeyError for a neighbour without a word. A pair of indices is truthy.
\<close>

fun consistent_neighbors ::
  "crossword \<Rightarrow> assignment \<Rightarrow> variable \<Rightarrow> variable list \<Rightarrow> error + bool" where
  "consistent_neighbors cw a var [] = Inr True"
| "consistent_neighbors cw a var (neighbor # rest) =
     (case lookup a neighbor of Inl e \<Rightarrow> Inl e
      | Inr word_n \<Rightarrow>
        (case overlaps cw (var, neighbor) of None \<Rightarrow> Inl KeyError
         | Some None \<Rightarrow> consistent_neighbors cw a var rest
         | Some (Some (ix, iy)) \<Rightarrow>
           (case lookup a var of Inl e \<Rightarrow> Inl e
            | Inr word_v \<Rightarrow>
              (case char_at word_v ix of Inl e \<Rightarrow> Inl e
               | Inr cv \<Rightarrow>
                 (case char_at word_n iy of Inl e \<Rightarrow> Inl e
                  | Inr cn \<Rightarrow>
                    (if cv \<noteq> cn then Inr False
                     else consistent_neighbors cw a var rest))))))"

fun consistent_loop :: "crossword \<Rightarrow> assignment \<Rightarrow> variable list \<Rightarrow> error + bool" where
  "consistent_loop cw a [] = Inr True"
| "consistent_loop cw a (var # rest) =
     (if length (map snd a) \<noteq> length (remdups (map snd a)) then Inr False
      else (case lookup a var of Inl e \<Rightarrow> Inl e
            | Inr word \<Rightarrow>
              (if var_length var \<noteq> int (length word) then Inr False
               else (case consistent_neighbors cw a var (neighbors cw var) of Inl e \<Rightarrow> Inl e
                     | Inr ok \<Rightarrow> (if ok then consistent_loop cw a rest else Inr False)))))"

definition consistent :: "crossword \<Rightarrow> assignment \<Rightarrow> error + bool" where
  "consistent cw a = consistent_loop cw a (map fst a)"

subsection \<open>order_domain_values\<close>

text \<open>
  The loop over \<open>self.domains[neighbor]\<close>: \<open>n += 1\<close> for each neighbour word that
  agrees with \<open>varWord\<close> at the overlap (\<open>==\<close> in the source). The overlap is looked
  up in each iteration.
\<close>

fun count_words ::
  "(nat \<times> nat) option option \<Rightarrow> string \<Rightarrow> string list \<Rightarrow> nat \<Rightarrow> error + nat" where
  "count_words ov varWord [] n = Inr n"
| "count_words ov varWord (neighborWord # rest) n =
     (case ov of None \<Rightarrow> Inl KeyError
      | Some None \<Rightarrow> Inl TypeError
      | Some (Some (ix, iy)) \<Rightarrow>
        (case char_at varWord ix of Inl e \<Rightarrow> Inl e
         | Inr cv \<Rightarrow>
           (case char_at neighborWord iy of Inl e \<Rightarrow> Inl e
            | Inr cn \<Rightarrow> count_words ov varWord rest (if cv = cn then n + 1 else n))))"

fun count_neighbors ::
  "crossword \<Rightarrow> domain_store \<Rightarrow> assignment \<Rightarrow> variable \<Rightarrow> string \<Rightarrow> variable list \<Rightarrow> nat \<Rightarrow> error + nat" where
  "count_neighbors cw ds a var varWord [] n = Inr n"
| "count_neighbors cw ds a var varWord (neighbor # rest) n =
     (if neighbor \<notin> set (map fst a)
      then (case lookup ds neighbor of Inl e \<Rightarrow> Inl e
            | Inr dom_n \<Rightarrow>
              (case count_words (overlaps cw (var, neighbor)) varWord dom_n n of Inl e \<Rightarrow> Inl e
               | Inr n' \<Rightarrow> count_neighbors cw ds a var varWord rest n'))
      else count_neighbors cw ds a var varWord rest n)"

text \<open>The dictionary \<open>unorderedValues\<close>, filled word by word.\<close>

fun unorderedValues ::
  "crossword \<Rightarrow> domain_store \<Rightarrow> assignment \<Rightarrow> variable \<Rightarrow> string list \<Rightarrow> (string \<times> nat) list
     \<Rightarrow> error + (string \<times> nat) list" where
  "unorderedValues cw ds a var [] acc = Inr acc"
| "unorderedValues cw ds a var (varWord # rest) acc =
     (case count_neighbors cw ds a var varWord (neighbors cw var) 0 of Inl e \<Rightarrow> Inl e
      | Inr n \<Rightarrow> unorderedValues cw ds a var rest (AList.update varWord n acc))"

text \<open>\<open>sorted(..., key=lambda item: item[1])\<close> is a stable sort, as \<open>sort_key\<close> is.\<close>

definition order_domain_values ::
  "crossword \<Rightarrow> variable \<Rightarrow> assignment \<Rightarrow> domain_store \<Rightarrow> error + string list" where
  "order_domain_values cw var a ds =
     (case lookup ds var of Inl e \<Rightarrow> Inl e
      | Inr dom_var \<Rightarrow>
        (case unorderedValues cw ds a var dom_var [] of Inl e \<Rightarrow> Inl e
         | Inr uv \<Rightarrow> Inr (map fst (sort_key snd uv))))"

subsection \<open>select_unassigned_variable\<close>

text \<open>The dictionary \<open>untreatedVar\<close>: the domain size of each unassigned variable.\<close>

fun untreatedVar ::
  "domain_store \<Rightarrow> assignment \<Rightarrow> variable list \<Rightarrow> (variable \<times> nat) list \<Rightarrow> error + (variable \<times> nat) list" where
  "untreatedVar ds a [] acc = Inr acc"
| "untreatedVar ds a (var # rest) acc =
     (if var \<notin> set (map fst a)
      then (case lookup ds var of Inl e \<Rightarrow> Inl e
            | Inr dom_var \<Rightarrow> untreatedVar ds a rest (AList.update var (length dom_var) acc))
      else untreatedVar ds a rest acc)"

text \<open>\<open>min(d.values())\<close>: ValueError on an empty dictionary.\<close>

definition min_values :: "('k \<times> nat) list \<Rightarrow> error + nat" where
  "min_values d = (case map snd d of [] \<Rightarrow> Inl ValueError | n # ns \<Rightarrow> Inr (fold min ns n))"

text \<open>
  Both filtering loops of the source have this shape: keep, in order, the keys whose
  entry in \<open>d\<close> equals \<open>min(d.values())\<close>, computed anew for each key.
\<close>

fun keys_at_min :: "('k \<times> nat) list \<Rightarrow> 'k list \<Rightarrow> error + 'k list" where
  "keys_at_min d [] = Inr []"
| "keys_at_min d (var # rest) =
     (case lookup d var of Inl e \<Rightarrow> Inl e
      | Inr n \<Rightarrow>
        (case min_values d of Inl e \<Rightarrow> Inl e
         | Inr m \<Rightarrow>
           (case keys_at_min d rest of Inl e \<Rightarrow> Inl e
            | Inr vs \<Rightarrow> Inr (if n = m then var # vs else vs))))"

text \<open>
  \<open>random.choice(seq)\<close>: IndexError on an empty sequence; otherwise some element of
  it. The generator is the function \<open>rnd\<close>, whose value at the number of draws made so
  far picks the position.
\<close>

definition random_choice :: "(nat \<Rightarrow> nat) \<Rightarrow> 'a list \<Rightarrow> state \<Rightarrow> error + ('a \<times> state)" where
  "random_choice rnd xs st =
     (if xs = [] then Inl IndexError
      else Inr (xs ! (rnd (rng_draws st) mod length xs), st\<lparr>rng_draws := rng_draws st + 1\<rparr>))"

definition varDegree :: "crossword \<Rightarrow> variable list \<Rightarrow> (variable \<times> nat) list" where
  "varDegree cw vs = fold (\<lambda>var d. AList.update var (length (neighbors cw var)) d) vs []"

definition select_unassigned_variable ::
  "crossword \<Rightarrow> (nat \<Rightarrow> nat) \<Rightarrow> assignment \<Rightarrow> state \<Rightarrow> error + (variable \<times> state)" where
  "select_unassigned_variable cw rnd a st =
     (case untreatedVar (domains st) a (variables cw) [] of Inl e \<Rightarrow> Inl e
      | Inr untreated \<Rightarrow>
        (case keys_at_min untreated (map fst untreated) of Inl e \<Rightarrow> Inl e
         | Inr orderedUntreatedVarByMinValue \<Rightarrow>
           (if length untreated = 1
            then (case orderedUntreatedVarByMinValue of [] \<Rightarrow> Inl IndexError
                  | var # _ \<Rightarrow> Inr (var, st))
            else (case keys_at_min (varDegree cw orderedUntreatedVarByMinValue)
                         orderedUntreatedVarByMinValue of Inl e \<Rightarrow> Inl e
                  | Inr orderedUntreatedVarByDegree \<Rightarrow>
                    random_choice rnd orderedUntreatedVarByDegree st))))"

text \<open>The selected variable is a variable of the puzzle without a word, and the store is untouched.\<close>

lemma untreatedVar_keys:
  "untreatedVar ds a vs acc = Inr u \<Longrightarrow>
     fst ` set u = fst ` set acc \<union> {v \<in> set vs. v \<notin> fst ` set a}"
proof (induction vs arbitrary: acc)
  case Nil
  then show ?case by simp
next
  case (Cons var rest)
  show ?case
  proof (cases "var \<in> set (map fst a)")
    case True
    with Cons.prems have "untreatedVar ds a rest acc = Inr u" by simp
    from Cons.IH [OF this] True show ?thesis by auto
  next
    case False
    with Cons.prems obtain dom_var :: "string list" where
      "untreatedVar ds a rest (AList.update var (length dom_var) acc) = Inr u"
      by (auto split: sum.splits)
    from Cons.IH [OF this] False show ?thesis by (auto simp: dom_update)
  qed
qed

lemma keys_at_min_subset: "keys_at_min d ks = Inr vs \<Longrightarrow> set vs \<subseteq> set ks"
  by (induction ks arbitrary: vs) (auto split: sum.splits if_splits)

lemma random_choice_mem:
  "random_choice rnd xs st = Inr (v, st') \<Longrightarrow> v \<in> set xs \<and> domains st' = domains st"
  by (auto simp: random_choice_def split: if_splits)

lemma select_unassigned_variable_sound:
  assumes "select_unassigned_variable cw rnd a st = Inr (v, st')"
  shows "v \<in> set (variables cw) \<and> v \<notin> fst ` set a \<and> domains st' = domains st"
proof -
  from assms obtain untreated byMin where
    u: "untreatedVar (domains st) a (variables cw) [] = Inr untreated" and
    m: "keys_at_min untreated (map fst untreated) = Inr byMin" and
    r: "(length untreated = 1 \<and> byMin \<noteq> [] \<and> v = hd byMin \<and> st' = st) \<or>
        (\<exists>byDegree. keys_at_min (varDegree cw byMin) byMin = Inr byDegree \<and>
           random_choice rnd byDegree st = Inr (v, st'))"
    by (auto simp: select_unassigned_variable_def split: sum.splits if_splits list.splits)
  from r keys_at_min_subset random_choice_mem
  have "v \<in> set byMin \<and> domains st' = domains st"
    by (metis hd_in_set subsetD)
  with keys_at_min_subset [OF m] untreatedVar_keys [OF u] show ?thesis
    by auto
qed

subsection \<open>backtrack and solve\<close>

text \<open>
  \<open>backtrack\<close> and its \<open>for\<close> loop over the ordered values call each other. The loop
  ignores what \<open>ac3\<close> returns and keeps the store it leaves; \<open>savedDomain\<close> is written
  back only after the loop, on the way to the implicit \<open>return None\<close>. Each call of
  \<open>backtrack\<close> from the loop has one more variable assigned, which is the measure.
\<close>

function backtrack ::
  "crossword \<Rightarrow> (nat \<Rightarrow> nat) \<Rightarrow> assignment \<Rightarrow> state \<Rightarrow> error + (assignment option \<times> state)"
and backtrack_loop ::
  "crossword \<Rightarrow> (nat \<Rightarrow> nat) \<Rightarrow> assignment \<Rightarrow> variable \<Rightarrow> string list \<Rightarrow> state
     \<Rightarrow> error + (assignment option \<times> state)" where
  "backtrack cw rnd a st =
     (if assignment_complete cw a
      then (case consistent cw a of Inl e \<Rightarrow> Inl e
            | Inr ok \<Rightarrow> Inr (if ok then Some a else None, st))
      else (case select_unassigned_variable cw rnd a st of Inl e \<Rightarrow> Inl e
            | Inr (selectedVar, st1) \<Rightarrow>
              (case lookup (domains st1) selectedVar of Inl e \<Rightarrow> Inl e
               | Inr savedDomain \<Rightarrow>
                 (case order_domain_values cw selectedVar a (domains st1) of Inl e \<Rightarrow> Inl e
                  | Inr vals \<Rightarrow>
                    (case backtrack_loop cw rnd a selectedVar vals st1 of Inl e \<Rightarrow> Inl e
                     | Inr (Some result, st2) \<Rightarrow> Inr (Some result, st2)
                     | Inr (None, st2) \<Rightarrow>
                         Inr (None, st2\<lparr>domains := AList.update selectedVar savedDomain (domains st2)\<rparr>))))))"
| "backtrack_loop cw rnd a selectedVar [] st = Inr (None, st)"
| "backtrack_loop cw rnd a selectedVar (val # rest) st =
     (case ac3 cw (Some (map (\<lambda>neighbor. (selectedVar, neighbor)) (neighbors cw selectedVar)))
             (domains st) of Inl e \<Rightarrow> Inl e
      | Inr (_, ds') \<Rightarrow>
        (case backtrack cw rnd (AList.update selectedVar val a) (st\<lparr>domains := ds'\<rparr>) of
           Inl e \<Rightarrow> Inl e
         | Inr (Some result, st') \<Rightarrow> Inr (Some result, st')
         | Inr (None, st') \<Rightarrow> backtrack_loop cw rnd a selectedVar rest st'))"
  by pat_completeness auto
termination
proof (relation "inv_image (less_than <*lex*> less_than)
    (\<lambda>x. case x of
       Inl (cw, rnd, a, st) \<Rightarrow> (card (set (variables cw) - fst ` set a), 0)
     | Inr (cw, rnd, a, selectedVar, vals, st) \<Rightarrow>
         (card (set (variables cw) - insert selectedVar (fst ` set a)), Suc (length vals)))",
    goal_cases)
  case 1
  show ?case by (intro wf_inv_image wf_lex_prod wf_less_than)
next
  case 2
  then show ?case
    by (auto dest!: select_unassigned_variable_sound intro!: psubset_card_mono)
next
  case 3
  then show ?case by (simp add: dom_update)
next
  case 4
  then show ?case by simp
qed


declare backtrack.simps [simp del]

text \<open>\<open>solve\<close> discards the result of \<open>ac3\<close> and calls \<open>backtrack(dict())\<close>.\<close>

definition solve :: "crossword \<Rightarrow> (nat \<Rightarrow> nat) \<Rightarrow> state \<Rightarrow> error + (assignment option \<times> state)" where
  "solve cw rnd st =
     (case enforce_node_consistency cw (domains st) of Inl e \<Rightarrow> Inl e
      | Inr ds1 \<Rightarrow>
        (case ac3 cw None ds1 of Inl e \<Rightarrow> Inl e
         | Inr (_, ds2) \<Rightarrow> backtrack cw rnd [] (st\<lparr>domains := ds2\<rparr>)))"

subsection \<open>What propagation and a failed search do to the store\<close>

text \<open>
  \<open>revise(x, y)\<close> writes \<open>self.domains[x]\<close> and nothing else. As it never reports a
  change, \<open>ac3\<close> started on arcs that all leave \<open>x\<close> touches only the entry of \<open>x\<close>
  and returns \<open>True\<close>.
\<close>

lemma lookup_Inr: "lookup d k = Inr v \<longleftrightarrow> map_of d k = Some v"
  by (simp add: lookup_def split: option.splits)

lemma revise_store:
  assumes "revise cw x y ds = Inr (b, ds')"
  shows "\<exists>d. ds' = AList.update x d ds"
  using assms by (auto simp: revise_def Let_def split: option.splits sum.splits)

lemma ac3_step_store:
  assumes "ac3_step cw temp queue ds = Inr s"
  shows "\<exists>d b q. s = Continue queue (AList.update (fst temp) d ds)"
  using assms revise_result_False [of cw "fst temp" "snd temp" ds]
    revise_store [of cw "fst temp" "snd temp" ds]
  by (auto simp: ac3_step_def split: sum.splits if_splits)

lemma ac3_loop_one_variable:
  "ac3_loop cw queue ds = Inr (b, ds') \<Longrightarrow> \<forall>arc \<in> set queue. fst arc = x \<Longrightarrow>
     b \<and> (ds' = ds \<or> (\<exists>d. ds' = AList.update x d ds))"
proof (induction cw queue ds rule: ac3_loop.induct)
  case (1 cw ds)
  then show ?case by simp
next
  case (2 cw temp queue ds)
  from "2.prems" obtain s where s: "ac3_step cw temp queue ds = Inr s"
    by (auto split: sum.splits)
  from ac3_step_store [OF s] "2.prems"(2) obtain d where
    d: "s = Continue queue (AList.update x d ds)" by auto
  with s "2.prems" have "ac3_loop cw queue (AList.update x d ds) = Inr (b, ds')" by simp
  from "2.IH" [OF s d this] "2.prems"(2) show ?case by auto
qed

text \<open>
  A call of \<open>backtrack\<close> that returns \<open>None\<close> leaves the store as it found it; the
  loop over the values, when it runs out of values, has changed at most the entry of
  the selected variable.
\<close>

lemma backtrack_failure_store:
  "backtrack cw rnd a st = Inr (None, st') \<Longrightarrow> domains st' = domains st"
  "backtrack_loop cw rnd a selectedVar vals st = Inr (None, st') \<Longrightarrow>
     domains st' = domains st \<or> (\<exists>d. domains st' = AList.update selectedVar d (domains st))"
proof (induction cw rnd a st and cw rnd a selectedVar vals st arbitrary: st' and st'
    rule: backtrack_backtrack_loop.induct)
  case (1 cw rnd a st)
  show ?case
  proof (cases "assignment_complete cw a")
    case True
    with "1.prems" show ?thesis
      by (auto simp: backtrack.simps split: sum.splits if_splits)
  next
    case False
    with "1.prems" obtain selectedVar st1 savedDomain vals st2 where
      sel: "select_unassigned_variable cw rnd a st = Inr (selectedVar, st1)" and
      saved: "lookup (domains st1) selectedVar = Inr savedDomain" and
      vals: "order_domain_values cw selectedVar a (domains st1) = Inr vals" and
      loop: "backtrack_loop cw rnd a selectedVar vals st1 = Inr (None, st2)" and
      st': "st' = st2\<lparr>domains := AList.update selectedVar savedDomain (domains st2)\<rparr>"
      by (auto simp: backtrack.simps split: sum.splits option.splits)
    from "1.IH" [OF False sel refl saved vals loop]
    have "AList.update selectedVar savedDomain (domains st2)
        = AList.update selectedVar savedDomain (domains st1)"
      by auto
    also from saved have "\<dots> = domains st1"
      by (simp add: lookup_Inr update_triv)
    finally show ?thesis
      using st' select_unassigned_variable_sound [OF sel] by simp
  qed
next
  case (2 cw rnd a selectedVar st)
  then show ?case by (simp add: backtrack.simps)
next
  case (3 cw rnd a selectedVar val rest st)
  let ?arcs = "map (\<lambda>neighbor. (selectedVar, neighbor)) (neighbors cw selectedVar)"
  from "3.prems" obtain ok ds1 st1 where
    ac3: "ac3 cw (Some ?arcs) (domains st) = Inr (ok, ds1)" and
    rec: "backtrack cw rnd (AList.update selectedVar val a) (st\<lparr>domains := ds1\<rparr>) = Inr (None, st1)" and
    rest: "backtrack_loop cw rnd a selectedVar rest st1 = Inr (None, st')"
    by (auto simp: backtrack.simps split: sum.splits option.splits)
  from ac3 have ds1: "ds1 = domains st \<or> (\<exists>d. ds1 = AList.update selectedVar d (domains st))"
    using ac3_loop_one_variable [of cw ?arcs "domains st" ok ds1 selectedVar]
    by (auto simp: ac3_def)
  from "3.IH"(1) [OF ac3 refl rec] have "domains st1 = ds1" by simp
  with "3.IH"(2) [OF ac3 refl rec refl refl rest] ds1 show ?case by auto
qed

subsection \<open>A puzzle of three slots\<close>

text \<open>
  Three slots in a chain: \<open>slot_a\<close> runs across row 0 (cells (0,0) to (0,2)),
  \<open>slot_b\<close> runs down column 0 (cells (0,0) to (3,0)) and \<open>slot_c\<close> runs across row 3
  (cells (3,0) to (3,4)). \<open>slot_a\<close> and \<open>slot_b\<close> share their first cells; the last
  cell of \<open>slot_b\<close> is the first of \<open>slot_c\<close>; \<open>slot_a\<close> and \<open>slot_c\<close> do not cross.
  The vocabulary is a parameter. The lists fix one order in which the sets are visited.
  \<open>first_choice\<close> is a generator under which \<open>random.choice\<close> takes the first element.
\<close>

definition slot_a :: variable where "slot_a = Variable 0 0 ACROSS 3"
definition slot_b :: variable where "slot_b = Variable 0 0 DOWN 4"
definition slot_c :: variable where "slot_c = Variable 3 0 ACROSS 5"

definition chain_puzzle :: "string list \<Rightarrow> crossword" where
  "chain_puzzle vocabulary =
     \<lparr>variables = [slot_a, slot_b, slot_c],
      words = vocabulary,
      overlaps = (\<lambda>p.
        if p = (slot_a, slot_b) then Some (Some (0, 0))
        else if p = (slot_b, slot_a) then Some (Some (0, 0))
        else if p = (slot_b, slot_c) then Some (Some (3, 0))
        else if p = (slot_c, slot_b) then Some (Some (0, 3))
        else if p = (slot_a, slot_c) then Some None
        else if p = (slot_c, slot_a) then Some None
        else None),
      neighbors = (\<lambda>v.
        if v = slot_a then [slot_b]
        else if v = slot_b then [slot_a, slot_c]
        else if v = slot_c then [slot_b]
        else [])\<rparr>"

definition first_choice :: "nat \<Rightarrow> nat" where "first_choice k = 0"



definition vocabulary5 :: "string list" where
  "vocabulary5 = [''DOG'', ''CAT'', ''COLD'', ''DAMP'', ''DREAM'']"

definition vocabulary4 :: "string list" where
  "vocabulary4 = [''DOG'', ''CAT'', ''COLD'', ''DAMP'']"

definition vocabulary8 :: "string list" where
  "vocabulary8 =
     [''DOG'', ''CAT'', ''COLD'', ''CALM'', ''DAMP'', ''DREAM'', ''MAGIC'', ''PIANO'']"

text \<open>
  The chain again with a slot of three letters on row 3 (\<open>slot_d\<close>, cells (3,0) to
  (3,2)) in place of \<open>slot_c\<close>, so that the two across slots draw on the same words;
  and a puzzle of two across slots, on rows 0 and 2, that do not cross.
\<close>

definition slot_d :: variable where "slot_d = Variable 3 0 ACROSS 3"

definition slot_e :: variable where "slot_e = Variable 2 0 ACROSS 3"

definition short_chain_puzzle :: "string list \<Rightarrow> crossword" where
  "short_chain_puzzle vocabulary =
     \<lparr>variables = [slot_a, slot_b, slot_d],
      words = vocabulary,
      overlaps = (\<lambda>p.
        if p = (slot_a, slot_b) then Some (Some (0, 0))
        else if p = (slot_b, slot_a) then Some (Some (0, 0))
        else if p = (slot_b, slot_d) then Some (Some (3, 0))
        else if p = (slot_d, slot_b) then Some (Some (0, 3))
        else if p = (slot_a, slot_d) then Some None
        else if p = (slot_d, slot_a) then Some None
        else None),
      neighbors = (\<lambda>v.
        if v = slot_a then [slot_b]
        else if v = slot_b then [slot_a, slot_d]
        else if v = slot_d then [slot_b]
        else [])\<rparr>"

definition vocabulary_top :: "string list" where
  "vocabulary_top = [''DOG'', ''TOP'', ''TENT'', ''DAMP'']"

definition disjoint_puzzle :: "string list \<Rightarrow> crossword" where
  "disjoint_puzzle vocabulary =
     \<lparr>variables = [slot_a, slot_e],
      words = vocabulary,
      overlaps = (\<lambda>p.
        if p = (slot_a, slot_e) then Some None
        else if p = (slot_e, slot_a) then Some None
        else None),
      neighbors = (\<lambda>v. [])\<rparr>"

text \<open>A puzzle without any slot.\<close>

definition empty_puzzle :: "string list \<Rightarrow> crossword" where
  "empty_puzzle vocabulary =
     \<lparr>variables = [], words = vocabulary, overlaps = (\<lambda>p. None), neighbors = (\<lambda>v. [])\<rparr>"

subsection \<open>What a returned assignment has passed\<close>

lemma assignment_complete_keys:
  "assignment_complete cw a \<longleftrightarrow> set (variables cw) \<subseteq> fst ` set a"
proof -
  have "assignment_complete_loop vs a \<longleftrightarrow> set vs \<subseteq> fst ` set a" for vs
    by (induction vs) auto
  then show ?thesis by (simp add: assignment_complete_def)
qed

lemma consistent_neighbors_agree:
  "consistent_neighbors cw a var ns = Inr True \<Longrightarrow> n \<in> set ns \<Longrightarrow>
   overlaps cw (var, n) = Some (Some (ix, iy)) \<Longrightarrow>
     \<exists>wv wn. map_of a var = Some wv \<and> map_of a n = Some wn \<and>
       ix < length wv \<and> iy < length wn \<and> wv ! ix = wn ! iy"
proof (induction ns)
  case Nil
  then show ?case by simp
next
  case (Cons m ns)
  from Cons.prems(1) have rest: "consistent_neighbors cw a var ns = Inr True"
    by (auto split: sum.splits option.splits if_splits)
  show ?case
  proof (cases "n = m")
    case True
    with Cons.prems(1,3) show ?thesis
      by (auto simp: lookup_Inr char_at_def split: sum.splits if_splits)
  next
    case False
    with Cons.prems(2) have "n \<in> set ns" by simp
    from Cons.IH [OF rest this Cons.prems(3)] show ?thesis .
  qed
qed

lemma consistent_loop_checked:
  "consistent_loop cw a vs = Inr True \<Longrightarrow> var \<in> set vs \<Longrightarrow>
     distinct (map snd a) \<and>
     (\<exists>w. map_of a var = Some w \<and> var_length var = int (length w)) \<and>
     consistent_neighbors cw a var (neighbors cw var) = Inr True"
proof (induction vs)
  case Nil
  then show ?case by simp
next
  case (Cons v vs)
  from Cons.prems(1) have
    d: "length (map snd a) = length (remdups (map snd a))" and
    here: "\<exists>w. map_of a v = Some w \<and> var_length v = int (length w)" and
    nb: "consistent_neighbors cw a v (neighbors cw v) = Inr True" and
    rest: "consistent_loop cw a vs = Inr True"
    by (auto simp: lookup_Inr split: sum.splits if_splits)
  from d have "distinct (map snd a)"
    by (metis length_remdups_eq remdups_id_iff_distinct)
  with here nb Cons.IH [OF rest] Cons.prems(2) show ?case by auto
qed

lemma backtrack_success_checked:
  "backtrack cw rnd a st = Inr (Some r, st') \<Longrightarrow>
     assignment_complete cw r \<and> consistent cw r = Inr True"
  "backtrack_loop cw rnd a selectedVar vals st = Inr (Some r, st') \<Longrightarrow>
     assignment_complete cw r \<and> consistent cw r = Inr True"
proof (induction cw rnd a st and cw rnd a selectedVar vals st arbitrary: st' and st'
    rule: backtrack_backtrack_loop.induct)
  case (1 cw rnd a st)
  show ?case
  proof (cases "assignment_complete cw a")
    case True
    with "1.prems" show ?thesis
      by (auto simp: backtrack.simps split: sum.splits if_splits)
  next
    case False
    with "1.prems" obtain selectedVar st1 savedDomain vals where
      sel: "select_unassigned_variable cw rnd a st = Inr (selectedVar, st1)" and
      saved: "lookup (domains st1) selectedVar = Inr savedDomain" and
      vals: "order_domain_values cw selectedVar a (domains st1) = Inr vals" and
      loop: "backtrack_loop cw rnd a selectedVar vals st1 = Inr (Some r, st')"
      by (auto simp: backtrack.simps split: sum.splits option.splits)
    from "1.IH" [OF False sel refl saved vals loop] show ?thesis .
  qed
next
  case (2 cw rnd a selectedVar st)
  then show ?case by (simp add: backtrack.simps)
next
  case (3 cw rnd a selectedVar val rest st)
  let ?arcs = "map (\<lambda>neighbor. (selectedVar, neighbor)) (neighbors cw selectedVar)"
  from "3.prems" obtain ok ds1 res st1 where
    ac3: "ac3 cw (Some ?arcs) (domains st) = Inr (ok, ds1)" and
    rec: "backtrack cw rnd (AList.update selectedVar val a) (st\<lparr>domains := ds1\<rparr>) = Inr (res, st1)" and
    rest: "(res = Some r \<and> st1 = st') \<or>
           (res = None \<and> backtrack_loop cw rnd a selectedVar rest st1 = Inr (Some r, st'))"
    by (auto simp: backtrack.simps split: sum.splits option.splits)
  from rest show ?case
  proof
    assume "res = Some r \<and> st1 = st'"
    with "3.IH"(1) [OF ac3 refl] rec show ?thesis by simp
  next
    assume "res = None \<and> backtrack_loop cw rnd a selectedVar rest st1 = Inr (Some r, st')"
    with "3.IH"(2) [OF ac3 refl rec refl] show ?thesis by simp
  qed
qed

lemma solve_is_backtrack:
  assumes "solve cw rnd st = Inr out"
  shows "\<exists>ds1 ok ds2. enforce_node_consistency cw (domains st) = Inr ds1 \<and>
     ac3 cw None ds1 = Inr (ok, ds2) \<and> backtrack cw rnd [] (st\<lparr>domains := ds2\<rparr>) = Inr out"
  using assms by (auto simp: solve_def split: sum.splits)


text \<open>
  C3. Every assignment returned by \<open>solve\<close>, or by a call of \<open>backtrack\<close>, is complete and
  consistent: every variable of the puzzle has a word; the words of two different
  variables differ; each word has the length of its variable; and for every variable
  \<open>x\<close> and every neighbour \<open>y\<close> of \<open>x\<close> with recorded overlap \<open>(ix, iy)\<close>, the word of
  \<open>x\<close> at \<open>ix\<close> is the word of \<open>y\<close> at \<open>iy\<close>. The overlapping pairs are the pairs of a
  variable and one of its neighbours, the neighbours being the variables that share a
  cell with it.
\<close>

theorem returned_assignment_complete_consistent:
  assumes "solve cw rnd st = Inr (Some r, st') \<or> backtrack cw rnd a st = Inr (Some r, st')"
  shows "(\<forall>v \<in> set (variables cw). \<exists>w. map_of r v = Some w) \<and>
    (\<forall>x y wx wy. map_of r x = Some wx \<and> map_of r y = Some wy \<and> x \<noteq> y \<longrightarrow> wx \<noteq> wy) \<and>
    (\<forall>v w. map_of r v = Some w \<longrightarrow> int (length w) = var_length v) \<and>
    (\<forall>x \<in> set (variables cw). \<forall>y \<in> set (neighbors cw x). \<forall>ix iy.
       overlaps cw (x, y) = Some (Some (ix, iy)) \<longrightarrow>
       (\<exists>wx wy. map_of r x = Some wx \<and> map_of r y = Some wy \<and>
          ix < length wx \<and> iy < length wy \<and> wx ! ix = wy ! iy))"
proof -
  from assms obtain a0 st0 where "backtrack cw rnd a0 st0 = Inr (Some r, st')"
    using solve_is_backtrack [of cw rnd st "(Some r, st')"] by auto
  from backtrack_success_checked(1) [OF this] have
    complete: "set (variables cw) \<subseteq> fst ` set r" and
    cons: "consistent_loop cw r (map fst r) = Inr True"
    by (simp_all add: assignment_complete_keys consistent_def)
  have keys: "\<exists>w. map_of r v = Some w" if "v \<in> fst ` set r" for v
    using that by (metis domD dom_map_of_conv_image_fst)
  have checked: "distinct (map snd r) \<and>
     (\<exists>w. map_of r v = Some w \<and> var_length v = int (length w)) \<and>
     consistent_neighbors cw r v (neighbors cw v) = Inr True" if "v \<in> fst ` set r" for v
    using consistent_loop_checked [OF cons, of v] that by simp
  have c1: "\<forall>v \<in> set (variables cw). \<exists>w. map_of r v = Some w"
    using complete keys by blast
  have c2: "\<forall>x y wx wy. map_of r x = Some wx \<and> map_of r y = Some wy \<and> x \<noteq> y \<longrightarrow> wx \<noteq> wy"
  proof (intro allI impI)
    fix x y wx wy
    assume h: "map_of r x = Some wx \<and> map_of r y = Some wy \<and> x \<noteq> y"
    then have mem: "(x, wx) \<in> set r" "(y, wy) \<in> set r"
      by (auto dest: map_of_SomeD)
    then have "x \<in> fst ` set r" by force
    from checked [OF this] have "inj_on snd (set r)"
      by (simp add: distinct_map)
    from inj_onD [OF this _ mem] h show "wx \<noteq> wy"
      by auto
  qed
  have c3: "\<forall>v w. map_of r v = Some w \<longrightarrow> int (length w) = var_length v"
  proof (intro allI impI)
    fix v w
    assume h: "map_of r v = Some w"
    then have "v \<in> fst ` set r" by (force dest: map_of_SomeD)
    from checked [OF this] h show "int (length w) = var_length v" by auto
  qed
  have c4: "\<forall>x \<in> set (variables cw). \<forall>y \<in> set (neighbors cw x). \<forall>ix iy.
       overlaps cw (x, y) = Some (Some (ix, iy)) \<longrightarrow>
       (\<exists>wx wy. map_of r x = Some wx \<and> map_of r y = Some wy \<and>
          ix < length wx \<and> iy < length wy \<and> wx ! ix = wy ! iy)"
  proof (intro ballI allI impI)
    fix x y ix iy
    assume x: "x \<in> set (variables cw)" and y: "y \<in> set (neighbors cw x)"
      and ov: "overlaps cw (x, y) = Some (Some (ix, iy))"
    from x complete have "x \<in> fst ` set r" by blast
    from checked [OF this] have "consistent_neighbors cw r x (neighbors cw x) = Inr True"
      by simp
    from consistent_neighbors_agree [OF this y ov]
    show "\<exists>wx wy. map_of r x = Some wx \<and> map_of r y = Some wy \<and>
          ix < length wx \<and> iy < length wy \<and> wx ! ix = wy ! iy" .
  qed
  from c1 c2 c3 c4 show ?thesis by blast
qed


theorem returned_assignment_witness:
  "solve (chain_puzzle vocabulary5) first_choice (init (chain_puzzle vocabulary5)) =
     Inr (Some [(slot_c, ''DREAM''), (slot_b, ''COLD''), (slot_a, ''CAT'')],
          \<lparr>domains = [(slot_a, [''CAT'']), (slot_b, [''COLD'']), (slot_c, [''DREAM''])],
           rng_draws = 2\<rparr>) \<and>
   (\<exists>wx wy. map_of [(slot_c, ''DREAM''), (slot_b, ''COLD''), (slot_a, ''CAT'')] slot_b = Some wx \<and>
      map_of [(slot_c, ''DREAM''), (slot_b, ''COLD''), (slot_a, ''CAT'')] slot_c = Some wy \<and>
      3 < length wx \<and> 0 < length wy \<and> wx ! 3 = wy ! 0)"
proof -
  let ?P = "chain_puzzle vocabulary5"
  let ?r = "[(slot_c, ''DREAM''), (slot_b, ''COLD''), (slot_a, ''CAT'')]"
  let ?s = "\<lparr>domains = [(slot_a, [''CAT'']), (slot_b, [''COLD'']), (slot_c, [''DREAM''])],
           rng_draws = 2\<rparr>"
  have run: "solve ?P first_choice (init ?P) = Inr (Some ?r, ?s)"
    by code_simp
  have b: "slot_b \<in> set (variables ?P)" and c: "slot_c \<in> set (neighbors ?P slot_b)"
    and ov: "overlaps ?P (slot_b, slot_c) = Some (Some (3, 0))"
    by (simp_all add: chain_puzzle_def slot_a_def slot_b_def slot_c_def)
  from returned_assignment_complete_consistent [OF disjI1 [OF run]] b c ov
  have "\<exists>wx wy. map_of ?r slot_b = Some wx \<and> map_of ?r slot_c = Some wy \<and>
      3 < length wx \<and> 0 < length wy \<and> wx ! 3 = wy ! 0"
    by blast
  with run show ?thesis by blast
qed

subsection \<open>The store between the candidates of a variable\<close>

lemma ac3_one_variable_others:
  assumes "ac3 cw (Some (map (\<lambda>neighbor. (x, neighbor)) ns)) ds = Inr (ok, ds')" and "v \<noteq> x"
  shows "map_of ds' v = map_of ds v"
proof -
  from assms(1) have "ds' = ds \<or> (\<exists>d. ds' = AList.update x d ds)"
    using ac3_loop_one_variable [of cw "map (\<lambda>neighbor. (x, neighbor)) ns" ds ok ds' x]
    by (auto simp: ac3_def)
  with assms(2) show ?thesis by (auto simp: update_conv')
qed


text \<open>
  C7, as the code has it. A call of \<open>backtrack\<close> that returns \<open>None\<close> leaves the store
  exactly as it was on entry to that call. Inside the loop over the candidate values
  nothing is restored: when the recursion on a candidate fails, the store is the one
  that the propagation for that candidate left (the domain of the selected variable as
  \<open>ac3\<close> pruned it, every other domain as before); the loop that has only this
  candidate ends with that store, and a next candidate is tried from it. The saved
  domain is written back once, after the loop.
\<close>

theorem failed_candidate_keeps_propagated_store:
  "(backtrack cw rnd a st = Inr (None, st') \<longrightarrow> domains st' = domains st) \<and>
   (ac3 cw (Some (map (\<lambda>neighbor. (selectedVar, neighbor)) (neighbors cw selectedVar)))
        (domains st) = Inr (ok, ds1) \<and>
    backtrack cw rnd (AList.update selectedVar val a) (st\<lparr>domains := ds1\<rparr>) = Inr (None, st1) \<longrightarrow>
      domains st1 = ds1 \<and>
      (\<forall>v. v \<noteq> selectedVar \<longrightarrow> map_of ds1 v = map_of (domains st) v) \<and>
      backtrack_loop cw rnd a selectedVar [val] st = Inr (None, st1) \<and>
      backtrack_loop cw rnd a selectedVar (val # rest) st =
        backtrack_loop cw rnd a selectedVar rest st1)"
proof (intro conjI impI)
  assume "backtrack cw rnd a st = Inr (None, st')"
  then show "domains st' = domains st" by (rule backtrack_failure_store(1))
next
  assume h: "ac3 cw (Some (map (\<lambda>neighbor. (selectedVar, neighbor)) (neighbors cw selectedVar)))
        (domains st) = Inr (ok, ds1) \<and>
    backtrack cw rnd (AList.update selectedVar val a) (st\<lparr>domains := ds1\<rparr>) = Inr (None, st1)"
  then have ac3: "ac3 cw (Some (map (\<lambda>neighbor. (selectedVar, neighbor)) (neighbors cw selectedVar)))
        (domains st) = Inr (ok, ds1)"
    and rec: "backtrack cw rnd (AList.update selectedVar val a) (st\<lparr>domains := ds1\<rparr>) = Inr (None, st1)"
    by simp_all
  from backtrack_failure_store(1) [OF rec] show "domains st1 = ds1" by simp
  from ac3 show "\<forall>v. v \<noteq> selectedVar \<longrightarrow> map_of ds1 v = map_of (domains st) v"
    by (auto dest: ac3_one_variable_others)
  from ac3 rec show "backtrack_loop cw rnd a selectedVar [val] st = Inr (None, st1)"
    by (simp add: backtrack.simps)
  from ac3 rec show "backtrack_loop cw rnd a selectedVar (val # rest) st =
        backtrack_loop cw rnd a selectedVar rest st1"
    by (simp add: backtrack.simps)
qed

text \<open>
  An instance in which the write-back matters. On the short chain with the vocabulary
  DOG, TOP, TENT, DAMP the two passes leave \<open>slot_a\<close> with DOG and TOP, \<open>slot_b\<close> with
  TENT and \<open>slot_d\<close> with TOP. With TOP on \<open>slot_d\<close> and TENT on \<open>slot_b\<close> the call
  of \<open>backtrack\<close> selects \<open>slot_a\<close>. DOG does not fit TENT, and TOP is taken already:
  both candidates fail and the call returns \<open>None\<close>. Its loop ends with the domain of
  \<open>slot_a\<close> pruned to TOP; the call itself returns the store it was given.
\<close>

theorem failed_candidate_witness:
  "backtrack (short_chain_puzzle vocabulary_top) first_choice [(slot_d, ''TOP''), (slot_b, ''TENT'')]
       \<lparr>domains = [(slot_a, [''DOG'', ''TOP'']), (slot_b, [''TENT'']), (slot_d, [''TOP''])], rng_draws = 2\<rparr> =
     Inr (None, \<lparr>domains = [(slot_a, [''DOG'', ''TOP'']), (slot_b, [''TENT'']), (slot_d, [''TOP''])], rng_draws = 2\<rparr>) \<and>
   backtrack_loop (short_chain_puzzle vocabulary_top) first_choice [(slot_d, ''TOP''), (slot_b, ''TENT'')] slot_a
       [''DOG'', ''TOP''] \<lparr>domains = [(slot_a, [''DOG'', ''TOP'']), (slot_b, [''TENT'']), (slot_d, [''TOP''])], rng_draws = 2\<rparr> =
     Inr (None, \<lparr>domains = [(slot_a, [''TOP'']), (slot_b, [''TENT'']), (slot_d, [''TOP''])], rng_draws = 2\<rparr>) \<and>
   [(slot_a, [''TOP'']), (slot_b, [''TENT'']), (slot_d, [''TOP''])] \<noteq>
     [(slot_a, [''DOG'', ''TOP'']), (slot_b, [''TENT'']), (slot_d, [''TOP''])] \<and>
   ac3 (short_chain_puzzle vocabulary_top) (Some [(slot_a, slot_b)])
       [(slot_a, [''DOG'', ''TOP'']), (slot_b, [''TENT'']), (slot_d, [''TOP''])] =
     Inr (True, [(slot_a, [''TOP'']), (slot_b, [''TENT'']), (slot_d, [''TOP''])]) \<and>
   backtrack (short_chain_puzzle vocabulary_top) first_choice
       [(slot_d, ''TOP''), (slot_b, ''TENT''), (slot_a, ''DOG'')]
       \<lparr>domains = [(slot_a, [''TOP'']), (slot_b, [''TENT'']), (slot_d, [''TOP''])], rng_draws = 2\<rparr> =
     Inr (None, \<lparr>domains = [(slot_a, [''TOP'']), (slot_b, [''TENT'']), (slot_d, [''TOP''])], rng_draws = 2\<rparr>) \<and>
   backtrack_loop (short_chain_puzzle vocabulary_top) first_choice [(slot_d, ''TOP''), (slot_b, ''TENT'')] slot_a
       [''DOG''] \<lparr>domains = [(slot_a, [''DOG'', ''TOP'']), (slot_b, [''TENT'']), (slot_d, [''TOP''])], rng_draws = 2\<rparr> =
     Inr (None, \<lparr>domains = [(slot_a, [''TOP'']), (slot_b, [''TENT'']), (slot_d, [''TOP''])], rng_draws = 2\<rparr>) \<and>
   map_of [(slot_a, [''TOP'']), (slot_b, [''TENT'']), (slot_d, [''TOP''])] slot_b =
     map_of [(slot_a, [''DOG'', ''TOP'']), (slot_b, [''TENT'']), (slot_d, [''TOP''])] slot_b"
proof -
  let ?Q = "short_chain_puzzle vocabulary_top"
  let ?s0 = "\<lparr>domains = [(slot_a, [''DOG'', ''TOP'']), (slot_b, [''TENT'']), (slot_d, [''TOP''])], rng_draws = 2\<rparr>"
  let ?s1 = "\<lparr>domains = [(slot_a, [''TOP'']), (slot_b, [''TENT'']), (slot_d, [''TOP''])], rng_draws = 2\<rparr>"
  let ?a0 = "[(slot_d, ''TOP''), (slot_b, ''TENT'')]"
  have nb: "map (\<lambda>neighbor. (slot_a, neighbor)) (neighbors ?Q slot_a) = [(slot_a, slot_b)]"
    by (simp add: short_chain_puzzle_def)
  have upd: "AList.update slot_a ''DOG'' ?a0 = [(slot_d, ''TOP''), (slot_b, ''TENT''), (slot_a, ''DOG'')]"
    by (simp add: slot_a_def slot_b_def slot_d_def)
  have whole: "backtrack ?Q first_choice ?a0 ?s0 = Inr (None, ?s0)"
    by code_simp
  have loop: "backtrack_loop ?Q first_choice ?a0 slot_a [''DOG'', ''TOP''] ?s0 = Inr (None, ?s1)"
    by code_simp
  have differ: "[(slot_a, [''TOP'']), (slot_b, [''TENT'']), (slot_d, [''TOP''])] \<noteq>
      [(slot_a, [''DOG'', ''TOP'']), (slot_b, [''TENT'']), (slot_d, [''TOP''])]"
    by simp
  have rec: "backtrack ?Q first_choice (AList.update slot_a ''DOG'' ?a0) (?s0\<lparr>domains := [(slot_a, [''TOP'']), (slot_b, [''TENT'']), (slot_d, [''TOP''])]\<rparr>)
      = Inr (None, ?s1)"
    by code_simp
  have pruned: "ac3 ?Q (Some (map (\<lambda>neighbor. (slot_a, neighbor)) (neighbors ?Q slot_a))) (domains ?s0)
      = Inr (True, [(slot_a, [''TOP'']), (slot_b, [''TENT'']), (slot_d, [''TOP''])])"
    by code_simp
  have ne: "slot_b \<noteq> slot_a"
    by (simp add: slot_a_def slot_b_def)
  from failed_candidate_keeps_propagated_store
    [of ?Q first_choice ?a0 ?s0 ?s0 slot_a True "[(slot_a, [''TOP'']), (slot_b, [''TENT'']), (slot_d, [''TOP''])]" "''DOG''" ?s1 "[''TOP'']"] whole
  have one: "domains ?s0 = domains ?s0"
    by blast
  from failed_candidate_keeps_propagated_store
    [of ?Q first_choice ?a0 ?s0 ?s0 slot_a True "[(slot_a, [''TOP'']), (slot_b, [''TENT'']), (slot_d, [''TOP''])]" "''DOG''" ?s1 "[''TOP'']"] pruned rec
  have two: "domains ?s1 = [(slot_a, [''TOP'']), (slot_b, [''TENT'']), (slot_d, [''TOP''])] \<and>
      (\<forall>v. v \<noteq> slot_a \<longrightarrow> map_of [(slot_a, [''TOP'']), (slot_b, [''TENT'']), (slot_d, [''TOP''])] v = map_of (domains ?s0) v) \<and>
      backtrack_loop ?Q first_choice ?a0 slot_a [''DOG''] ?s0 = Inr (None, ?s1)"
    by blast
  from two ne have three: "map_of [(slot_a, [''TOP'']), (slot_b, [''TENT'']), (slot_d, [''TOP''])] slot_b = map_of (domains ?s0) slot_b"
    by blast
  from whole loop differ rec pruned two three show ?thesis
    by (simp only: nb upd) simp
qed

text \<open>
  C7 as stated fails on the chain puzzle with the vocabulary DOG, CAT, COLD, DAMP, DREAM.
  Node consistency and the global pass leave \<open>slot_a\<close> with DOG and CAT and \<open>slot_b\<close>
  with COLD only. The search selects \<open>slot_c\<close>, then \<open>slot_b\<close>, then \<open>slot_a\<close>, none of
  the propagations before \<open>slot_a\<close> changing the store. For the candidate DOG the
  propagation prunes the domain of \<open>slot_a\<close> to CAT and the recursion fails. The loop
  over the candidates, stopped after DOG, hands back the pruned store and not the store
  that the candidate started from: the iteration restores nothing. On the short chain
  (vocabulary DOG, TOP, TENT, DAMP) the search selects \<open>slot_d\<close>, \<open>slot_b\<close> and
  \<open>slot_a\<close>; both candidates of \<open>slot_a\<close> fail, and the loop over both ends with the
  domain of \<open>slot_a\<close> pruned to TOP.
\<close>

theorem store_not_restored_between_candidates:
  "enforce_node_consistency (chain_puzzle vocabulary5) (init_domains (chain_puzzle vocabulary5)) =
     Inr [(slot_a, [''DOG'', ''CAT'']), (slot_b, [''COLD'', ''DAMP'']), (slot_c, [''DREAM''])] \<and>
   ac3 (chain_puzzle vocabulary5) None
       [(slot_a, [''DOG'', ''CAT'']), (slot_b, [''COLD'', ''DAMP'']), (slot_c, [''DREAM''])] =
     Inr (True, [(slot_a, [''DOG'', ''CAT'']), (slot_b, [''COLD'']), (slot_c, [''DREAM''])]) \<and>
   select_unassigned_variable (chain_puzzle vocabulary5) first_choice []
       \<lparr>domains = [(slot_a, [''DOG'', ''CAT'']), (slot_b, [''COLD'']), (slot_c, [''DREAM''])], rng_draws = 0\<rparr> =
     Inr (slot_c, \<lparr>domains = [(slot_a, [''DOG'', ''CAT'']), (slot_b, [''COLD'']), (slot_c, [''DREAM''])], rng_draws = 1\<rparr>) \<and>
   ac3 (chain_puzzle vocabulary5) (Some [(slot_c, slot_b)])
       [(slot_a, [''DOG'', ''CAT'']), (slot_b, [''COLD'']), (slot_c, [''DREAM''])] =
     Inr (True, [(slot_a, [''DOG'', ''CAT'']), (slot_b, [''COLD'']), (slot_c, [''DREAM''])]) \<and>
   select_unassigned_variable (chain_puzzle vocabulary5) first_choice [(slot_c, ''DREAM'')]
       \<lparr>domains = [(slot_a, [''DOG'', ''CAT'']), (slot_b, [''COLD'']), (slot_c, [''DREAM''])], rng_draws = 1\<rparr> =
     Inr (slot_b, \<lparr>domains = [(slot_a, [''DOG'', ''CAT'']), (slot_b, [''COLD'']), (slot_c, [''DREAM''])], rng_draws = 2\<rparr>) \<and>
   ac3 (chain_puzzle vocabulary5) (Some [(slot_b, slot_a), (slot_b, slot_c)])
       [(slot_a, [''DOG'', ''CAT'']), (slot_b, [''COLD'']), (slot_c, [''DREAM''])] =
     Inr (True, [(slot_a, [''DOG'', ''CAT'']), (slot_b, [''COLD'']), (slot_c, [''DREAM''])]) \<and>
   select_unassigned_variable (chain_puzzle vocabulary5) first_choice [(slot_c, ''DREAM''), (slot_b, ''COLD'')]
       \<lparr>domains = [(slot_a, [''DOG'', ''CAT'']), (slot_b, [''COLD'']), (slot_c, [''DREAM''])], rng_draws = 2\<rparr> =
     Inr (slot_a, \<lparr>domains = [(slot_a, [''DOG'', ''CAT'']), (slot_b, [''COLD'']), (slot_c, [''DREAM''])], rng_draws = 2\<rparr>) \<and>
   order_domain_values (chain_puzzle vocabulary5) slot_a [(slot_c, ''DREAM''), (slot_b, ''COLD'')]
       [(slot_a, [''DOG'', ''CAT'']), (slot_b, [''COLD'']), (slot_c, [''DREAM''])] =
     Inr [''DOG'', ''CAT''] \<and>
   ac3 (chain_puzzle vocabulary5) (Some [(slot_a, slot_b)])
       [(slot_a, [''DOG'', ''CAT'']), (slot_b, [''COLD'']), (slot_c, [''DREAM''])] =
     Inr (True, [(slot_a, [''CAT'']), (slot_b, [''COLD'']), (slot_c, [''DREAM''])]) \<and>
   backtrack (chain_puzzle vocabulary5) first_choice
       [(slot_c, ''DREAM''), (slot_b, ''COLD''), (slot_a, ''DOG'')]
       \<lparr>domains = [(slot_a, [''CAT'']), (slot_b, [''COLD'']), (slot_c, [''DREAM''])], rng_draws = 2\<rparr> =
     Inr (None, \<lparr>domains = [(slot_a, [''CAT'']), (slot_b, [''COLD'']), (slot_c, [''DREAM''])], rng_draws = 2\<rparr>) \<and>
   [(slot_a, [''CAT'']), (slot_b, [''COLD'']), (slot_c, [''DREAM''])] \<noteq>
     [(slot_a, [''DOG'', ''CAT'']), (slot_b, [''COLD'']), (slot_c, [''DREAM''])] \<and>
   backtrack_loop (chain_puzzle vocabulary5) first_choice [(slot_c, ''DREAM''), (slot_b, ''COLD'')] slot_a
       [''DOG''] \<lparr>domains = [(slot_a, [''DOG'', ''CAT'']), (slot_b, [''COLD'']), (slot_c, [''DREAM''])], rng_draws = 2\<rparr> =
     Inr (None, \<lparr>domains = [(slot_a, [''CAT'']), (slot_b, [''COLD'']), (slot_c, [''DREAM''])], rng_draws = 2\<rparr>) \<and>
   enforce_node_consistency (short_chain_puzzle vocabulary_top) (init_domains (short_chain_puzzle vocabulary_top)) =
     Inr [(slot_a, [''DOG'', ''TOP'']), (slot_b, [''TENT'', ''DAMP'']), (slot_d, [''DOG'', ''TOP''])] \<and>
   ac3 (short_chain_puzzle vocabulary_top) None
       [(slot_a, [''DOG'', ''TOP'']), (slot_b, [''TENT'', ''DAMP'']), (slot_d, [''DOG'', ''TOP''])] =
     Inr (True, [(slot_a, [''DOG'', ''TOP'']), (slot_b, [''TENT'']), (slot_d, [''TOP''])]) \<and>
   select_unassigned_variable (short_chain_puzzle vocabulary_top) first_choice []
       \<lparr>domains = [(slot_a, [''DOG'', ''TOP'']), (slot_b, [''TENT'']), (slot_d, [''TOP''])], rng_draws = 0\<rparr> =
     Inr (slot_d, \<lparr>domains = [(slot_a, [''DOG'', ''TOP'']), (slot_b, [''TENT'']), (slot_d, [''TOP''])], rng_draws = 1\<rparr>) \<and>
   ac3 (short_chain_puzzle vocabulary_top) (Some [(slot_d, slot_b)])
       [(slot_a, [''DOG'', ''TOP'']), (slot_b, [''TENT'']), (slot_d, [''TOP''])] =
     Inr (True, [(slot_a, [''DOG'', ''TOP'']), (slot_b, [''TENT'']), (slot_d, [''TOP''])]) \<and>
   select_unassigned_variable (short_chain_puzzle vocabulary_top) first_choice [(slot_d, ''TOP'')]
       \<lparr>domains = [(slot_a, [''DOG'', ''TOP'']), (slot_b, [''TENT'']), (slot_d, [''TOP''])], rng_draws = 1\<rparr> =
     Inr (slot_b, \<lparr>domains = [(slot_a, [''DOG'', ''TOP'']), (slot_b, [''TENT'']), (slot_d, [''TOP''])], rng_draws = 2\<rparr>) \<and>
   ac3 (short_chain_puzzle vocabulary_top) (Some [(slot_b, slot_a), (slot_b, slot_d)])
       [(slot_a, [''DOG'', ''TOP'']), (slot_b, [''TENT'']), (slot_d, [''TOP''])] =
     Inr (True, [(slot_a, [''DOG'', ''TOP'']), (slot_b, [''TENT'']), (slot_d, [''TOP''])]) \<and>
   select_unassigned_variable (short_chain_puzzle vocabulary_top) first_choice [(slot_d, ''TOP''), (slot_b, ''TENT'')]
       \<lparr>domains = [(slot_a, [''DOG'', ''TOP'']), (slot_b, [''TENT'']), (slot_d, [''TOP''])], rng_draws = 2\<rparr> =
     Inr (slot_a, \<lparr>domains = [(slot_a, [''DOG'', ''TOP'']), (slot_b, [''TENT'']), (slot_d, [''TOP''])], rng_draws = 2\<rparr>) \<and>
   order_domain_values (short_chain_puzzle vocabulary_top) slot_a [(slot_d, ''TOP''), (slot_b, ''TENT'')]
       [(slot_a, [''DOG'', ''TOP'']), (slot_b, [''TENT'']), (slot_d, [''TOP''])] =
     Inr [''DOG'', ''TOP''] \<and>
   backtrack_loop (short_chain_puzzle vocabulary_top) first_choice [(slot_d, ''TOP''), (slot_b, ''TENT'')] slot_a
       [''DOG'', ''TOP''] \<lparr>domains = [(slot_a, [''DOG'', ''TOP'']), (slot_b, [''TENT'']), (slot_d, [''TOP''])], rng_draws = 2\<rparr> =
     Inr (None, \<lparr>domains = [(slot_a, [''TOP'']), (slot_b, [''TENT'']), (slot_d, [''TOP''])], rng_draws = 2\<rparr>) \<and>
   [(slot_a, [''TOP'']), (slot_b, [''TENT'']), (slot_d, [''TOP''])] \<noteq>
     [(slot_a, [''DOG'', ''TOP'']), (slot_b, [''TENT'']), (slot_d, [''TOP''])]"
  by code_simp

subsection \<open>A well-formed puzzle raises no exception\<close>

text \<open>
  A puzzle is well formed when its variables are pairwise different, the neighbours of a
  variable are variables, and each pair of a variable and a neighbour has an overlap
  whose indices lie inside the two slots. A store is in order when every variable has a
  domain and the words in it have the length of the variable, as they do after node
  consistency; an assignment is in order when it gives variables words of their length.
  On such inputs no method of the solver raises.
\<close>

definition wf_puzzle :: "crossword \<Rightarrow> bool" where
  "wf_puzzle cw \<longleftrightarrow>
     distinct (variables cw) \<and>
     (\<forall>x \<in> set (variables cw). \<forall>y \<in> set (neighbors cw x).
        y \<in> set (variables cw) \<and>
        (\<exists>ix iy. overlaps cw (x, y) = Some (Some (ix, iy)) \<and>
           int ix < var_length x \<and> int iy < var_length y))"

definition store_ok :: "crossword \<Rightarrow> domain_store \<Rightarrow> bool" where
  "store_ok cw ds \<longleftrightarrow>
     (\<forall>v \<in> set (variables cw). \<exists>d. map_of ds v = Some d \<and>
        (\<forall>w \<in> set d. int (length w) = var_length v))"

lemma remove_words_total:
  "mset rest \<subseteq># mset new \<Longrightarrow>
     \<exists>r. remove_words var rest new = Inr r \<and>
       mset r = mset new - mset (filter (\<lambda>w. var_length var \<noteq> int (length w)) rest)"
proof (induction rest arbitrary: new)
  case Nil
  then show ?case by simp
next
  case (Cons word rest)
  from Cons.prems have mem: "word \<in> set new"
    by (metis insert_subset_eq_iff mset.simps(2) set_mset_mset)
  show ?case
  proof (cases "var_length var \<noteq> int (length word)")
    case True
    from Cons.prems have "mset rest \<subseteq># mset (remove1 word new)"
      by (simp add: insert_subset_eq_iff)
    from Cons.IH [OF this] obtain r where
      r: "remove_words var rest (remove1 word new) = Inr r" and
      m: "mset r = mset (remove1 word new) -
            mset (filter (\<lambda>w. var_length var \<noteq> int (length w)) rest)"
      by blast
    have "mset (remove1 word new) - mset (filter (\<lambda>w. var_length var \<noteq> int (length w)) rest)
        = mset new - mset (filter (\<lambda>w. var_length var \<noteq> int (length w)) (word # rest))"
      using True by (simp add: multiset_eq_iff)
    with r m True mem show ?thesis by simp
  next
    case False
    from Cons.prems have "mset rest \<subseteq># mset new"
      by (metis mset.simps(2) mset_subset_eq_insertD subset_mset.less_imp_le)
    from Cons.IH [OF this] False show ?thesis by simp
  qed
qed

lemma remove_words_self:
  "\<exists>r. remove_words var d d = Inr r \<and> (\<forall>w \<in> set r. int (length w) = var_length var)"
proof -
  from remove_words_total [of d d var] obtain r where
    r: "remove_words var d d = Inr r" and
    m: "mset r = mset d - mset (filter (\<lambda>w. var_length var \<noteq> int (length w)) d)"
    by auto
  have "mset d - mset (filter (\<lambda>w. var_length var \<noteq> int (length w)) d)
      = mset (filter (\<lambda>w. var_length var = int (length w)) d)"
    by (simp add: multiset_eq_iff)
  with m have "mset r = mset (filter (\<lambda>w. var_length var = int (length w)) d)"
    by simp
  then have "set r = set (filter (\<lambda>w. var_length var = int (length w)) d)"
    by (rule mset_eq_setD)
  with r show ?thesis by simp
qed

lemma node_loop_total:
  "distinct vs \<Longrightarrow> \<forall>v \<in> set vs. \<exists>d. map_of old v = Some d \<and> map_of new v = Some d \<Longrightarrow>
     \<exists>r. node_loop old vs new = Inr r \<and>
       (\<forall>v \<in> set vs. \<exists>d. map_of r v = Some d \<and> (\<forall>w \<in> set d. int (length w) = var_length v)) \<and>
       (\<forall>v. v \<notin> set vs \<longrightarrow> map_of r v = map_of new v)"
proof (induction vs arbitrary: new)
  case Nil
  then show ?case by simp
next
  case (Cons var rest)
  from Cons.prems(2) obtain d where d: "map_of old var = Some d" "map_of new var = Some d"
    by auto
  from remove_words_self [of var d] obtain r1 where
    r1: "remove_words var d d = Inr r1" "\<forall>w \<in> set r1. int (length w) = var_length var"
    by blast
  let ?new = "AList.update var r1 new"
  from Cons.prems have "distinct rest"
    and "\<forall>v \<in> set rest. \<exists>d. map_of old v = Some d \<and> map_of ?new v = Some d"
    by (auto simp: update_conv')
  from Cons.IH [OF this] obtain r where
    r: "node_loop old rest ?new = Inr r"
      "\<forall>v \<in> set rest. \<exists>d. map_of r v = Some d \<and> (\<forall>w \<in> set d. int (length w) = var_length v)"
      "\<forall>v. v \<notin> set rest \<longrightarrow> map_of r v = map_of ?new v"
    by blast
  from Cons.prems(1) r(3) have "map_of r var = Some r1"
    by (simp add: update_conv')
  with r r1 d show ?case
    by (auto simp: lookup_def update_conv')
qed

lemma enforce_node_consistency_total:
  assumes "distinct (variables cw)" and "\<forall>v \<in> set (variables cw). map_of ds v \<noteq> None"
  shows "\<exists>ds1. enforce_node_consistency cw ds = Inr ds1 \<and> store_ok cw ds1"
proof -
  from assms(2) have "\<forall>v \<in> set (variables cw). \<exists>d. map_of ds v = Some d \<and> map_of ds v = Some d"
    by auto
  from node_loop_total [OF assms(1) this] show ?thesis
    by (auto simp: enforce_node_consistency_def store_ok_def)
qed

lemma overlapWords_total:
  "ix < length wordX \<Longrightarrow> \<forall>w \<in> set dom_y. iy < length w \<Longrightarrow>
     \<exists>ows. overlapWords (Some (ix, iy)) wordX dom_y = Inr ows"
  by (induction dom_y) (auto simp: char_at_def)

lemma revise_loop_total:
  "lookup ds y = Inr dom_y \<Longrightarrow> \<forall>w \<in> set dom_x. ix < length w \<Longrightarrow>
   \<forall>w \<in> set dom_y. iy < length w \<Longrightarrow>
     \<exists>domain. revise_loop (Some (ix, iy)) ds y dom_x = Inr domain \<and> set domain \<subseteq> set dom_x"
proof (induction dom_x)
  case Nil
  then show ?case by simp
next
  case (Cons wordX rest)
  from Cons.prems overlapWords_total [of ix wordX dom_y iy] obtain ows where
    "overlapWords (Some (ix, iy)) wordX dom_y = Inr ows" by auto
  moreover from Cons obtain tail where
    "revise_loop (Some (ix, iy)) ds y rest = Inr tail" "set tail \<subseteq> set rest" by auto
  ultimately show ?case using Cons.prems(1) by auto
qed

lemma store_ok_lookup:
  "store_ok cw ds \<Longrightarrow> v \<in> set (variables cw) \<Longrightarrow>
     \<exists>d. lookup ds v = Inr d \<and> (\<forall>w \<in> set d. int (length w) = var_length v)"
  unfolding store_ok_def lookup_def by fastforce

lemma store_ok_update:
  "store_ok cw ds \<Longrightarrow> \<forall>w \<in> set d. int (length w) = var_length x \<Longrightarrow>
     store_ok cw (AList.update x d ds)"
  by (auto simp: store_ok_def update_conv')

lemma revise_total:
  assumes "wf_puzzle cw" and "store_ok cw ds"
    and "x \<in> set (variables cw)" and "y \<in> set (neighbors cw x)"
  shows "\<exists>ds'. revise cw x y ds = Inr (False, ds') \<and> store_ok cw ds'"
proof -
  from assms(1,3,4) obtain ix iy where
    ov: "overlaps cw (x, y) = Some (Some (ix, iy))" and
    ix: "int ix < var_length x" and iy: "int iy < var_length y" and y: "y \<in> set (variables cw)"
    unfolding wf_puzzle_def by blast
  from store_ok_lookup [OF assms(2,3)] obtain dom_x where
    dx: "lookup ds x = Inr dom_x" "\<forall>w \<in> set dom_x. int (length w) = var_length x"
    by blast
  from store_ok_lookup [OF assms(2) y] obtain dom_y where
    dy: "lookup ds y = Inr dom_y" "\<forall>w \<in> set dom_y. int (length w) = var_length y"
    by blast
  from dx(2) ix have "\<forall>w \<in> set dom_x. ix < length w" by auto
  moreover from dy(2) iy have "\<forall>w \<in> set dom_y. iy < length w" by auto
  ultimately obtain domain where
    dom: "revise_loop (Some (ix, iy)) ds y dom_x = Inr domain" "set domain \<subseteq> set dom_x"
    using revise_loop_total [OF dy(1)] by blast
  from dom(2) dx(2) have "\<forall>w \<in> set domain. int (length w) = var_length x" by auto
  from store_ok_update [OF assms(2) this] ov dx(1) dom(1) show ?thesis
    by (simp add: revise_def lookup_update_same)
qed

lemma ac3_loop_total:
  "wf_puzzle cw \<Longrightarrow> store_ok cw ds \<Longrightarrow>
   \<forall>arc \<in> set queue. fst arc \<in> set (variables cw) \<and> snd arc \<in> set (neighbors cw (fst arc)) \<Longrightarrow>
     \<exists>ds'. ac3_loop cw queue ds = Inr (True, ds') \<and> store_ok cw ds'"
proof (induction queue arbitrary: ds)
  case Nil
  then show ?case by simp
next
  case (Cons temp queue)
  from Cons.prems revise_total [of cw ds "fst temp" "snd temp"] obtain ds1 where
    r: "revise cw (fst temp) (snd temp) ds = Inr (False, ds1)" and ok: "store_ok cw ds1"
    by auto
  from Cons.IH [OF Cons.prems(1) ok] Cons.prems(3) obtain ds' where
    "ac3_loop cw queue ds1 = Inr (True, ds')" "store_ok cw ds'" by auto
  with r show ?case by (simp add: ac3_step_def)
qed


lemma untreatedVar_total:
  "\<forall>v \<in> set vs. map_of ds v \<noteq> None \<Longrightarrow> distinct (map fst acc) \<Longrightarrow>
     \<exists>u. untreatedVar ds a vs acc = Inr u \<and> distinct (map fst u)"
proof (induction vs arbitrary: acc)
  case Nil
  then show ?case by simp
next
  case (Cons var rest)
  from Cons.prems(1) obtain d where d: "lookup ds var = Inr d"
    by (auto simp: lookup_def)
  from Cons.prems(2) have "distinct (map fst (AList.update var (length d) acc))"
    by (rule distinct_update)
  with Cons.IH [of "AList.update var (length d) acc"] Cons.IH [of acc] Cons.prems d
  show ?case by auto
qed

lemma fold_min_mem: "fold min ns (n :: nat) \<in> set (n # ns)"
proof (induction ns arbitrary: n)
  case Nil
  then show ?case by simp
next
  case (Cons x ns)
  from Cons.IH [of "min n x"] show ?case by (auto simp: min_def split: if_splits)
qed

lemma min_values_total: "d \<noteq> [] \<Longrightarrow> \<exists>m. min_values d = Inr m \<and> m \<in> snd ` set d"
proof (cases d)
  case Nil
  then show "d \<noteq> [] \<Longrightarrow> ?thesis" by simp
next
  case (Cons p ps)
  from fold_min_mem [of "map snd ps" "snd p"] Cons show ?thesis
    by (auto simp: min_values_def)
qed

lemma keys_at_min_total:
  "min_values d = Inr m \<Longrightarrow> set ks \<subseteq> fst ` set d \<Longrightarrow>
     \<exists>vs. keys_at_min d ks = Inr vs \<and> set vs = {k \<in> set ks. map_of d k = Some m}"
proof (induction ks)
  case Nil
  then show ?case by simp
next
  case (Cons k ks)
  from Cons.prems(2) have "k \<in> fst ` set d" by simp
  then obtain n where n: "map_of d k = Some n"
    by (metis domD dom_map_of_conv_image_fst)
  from Cons obtain vs where
    vs: "keys_at_min d ks = Inr vs" "set vs = {k \<in> set ks. map_of d k = Some m}"
    by auto
  with n Cons.prems(1) show ?case
    by (auto simp: lookup_def)
qed

lemma keys_at_min_nonempty:
  assumes "distinct (map fst d)" and "d \<noteq> []" and "set ks = fst ` set d"
  shows "\<exists>vs. keys_at_min d ks = Inr vs \<and> vs \<noteq> []"
proof -
  from min_values_total [OF assms(2)] obtain m k where
    m: "min_values d = Inr m" and km: "(k, m) \<in> set d"
    by auto
  from km assms(1) have "map_of d k = Some m" by simp
  moreover from km assms(3) have "k \<in> set ks" by force
  moreover from keys_at_min_total [OF m, of ks] assms(3) obtain vs where
    "keys_at_min d ks = Inr vs" "set vs = {k \<in> set ks. map_of d k = Some m}"
    by auto
  ultimately show ?thesis by auto
qed

lemma varDegree_keys:
  "fst ` set (varDegree cw vs) = set vs \<and> distinct (map fst (varDegree cw vs))"
proof -
  have "fst ` set (fold (\<lambda>var d. AList.update var (length (neighbors cw var)) d) vs acc)
        = fst ` set acc \<union> set vs \<and>
      (distinct (map fst acc) \<longrightarrow>
        distinct (map fst (fold (\<lambda>var d. AList.update var (length (neighbors cw var)) d) vs acc)))"
    for acc
    by (induction vs arbitrary: acc) (auto simp: dom_update distinct_update)
  from this [of "[]"] show ?thesis by (simp add: varDegree_def)
qed

lemma select_unassigned_variable_total:
  assumes "\<forall>v \<in> set (variables cw). map_of (domains st) v \<noteq> None"
    and "\<not> assignment_complete cw a"
  shows "\<exists>v st'. select_unassigned_variable cw rnd a st = Inr (v, st')"
proof -
  from untreatedVar_total [OF assms(1), of "[]" a] obtain u where
    u: "untreatedVar (domains st) a (variables cw) [] = Inr u" and du: "distinct (map fst u)"
    by auto
  from untreatedVar_keys [OF u] assms(2) have "fst ` set u \<noteq> {}"
    by (auto simp: assignment_complete_keys)
  then have "u \<noteq> []" by auto
  from keys_at_min_nonempty [OF du this, of "map fst u"] obtain byMin where
    m: "keys_at_min u (map fst u) = Inr byMin" and ne: "byMin \<noteq> []"
    by auto
  from varDegree_keys [of cw byMin] ne have
    "distinct (map fst (varDegree cw byMin))" "varDegree cw byMin \<noteq> []"
    "set byMin = fst ` set (varDegree cw byMin)"
    by auto
  from keys_at_min_nonempty [OF this] obtain byDegree where
    "keys_at_min (varDegree cw byMin) byMin = Inr byDegree" "byDegree \<noteq> []"
    by auto
  with u m ne show ?thesis
    by (auto simp: select_unassigned_variable_def random_choice_def split: list.splits)
qed

lemma count_words_total:
  "ix < length varWord \<Longrightarrow> \<forall>w \<in> set dom_n. iy < length w \<Longrightarrow>
     \<exists>n'. count_words (Some (Some (ix, iy))) varWord dom_n n = Inr n'"
  by (induction dom_n arbitrary: n) (auto simp: char_at_def)

lemma count_neighbors_total:
  assumes "wf_puzzle cw" and "store_ok cw ds" and "var \<in> set (variables cw)"
    and "int (length varWord) = var_length var"
  shows "set ns \<subseteq> set (neighbors cw var) \<Longrightarrow>
     \<exists>n'. count_neighbors cw ds a var varWord ns n = Inr n'"
proof (induction ns arbitrary: n)
  case Nil
  then show ?case by simp
next
  case (Cons neighbor rest)
  from Cons.prems have nb: "neighbor \<in> set (neighbors cw var)" by simp
  with assms(1,3) obtain ix iy where
    ov: "overlaps cw (var, neighbor) = Some (Some (ix, iy))" and
    ix: "int ix < var_length var" and iy: "int iy < var_length neighbor" and
    v: "neighbor \<in> set (variables cw)"
    unfolding wf_puzzle_def by blast
  from store_ok_lookup [OF assms(2) v] obtain dom_n where
    dn: "lookup ds neighbor = Inr dom_n" "\<forall>w \<in> set dom_n. int (length w) = var_length neighbor"
    by blast
  from ix assms(4) have "ix < length varWord" by simp
  moreover from dn(2) iy have "\<forall>w \<in> set dom_n. iy < length w" by auto
  ultimately obtain n' where
    "count_words (Some (Some (ix, iy))) varWord dom_n n = Inr n'"
    using count_words_total by blast
  with ov dn(1) Cons.IH [of n'] Cons.IH [of n] Cons.prems show ?case by auto
qed

lemma unorderedValues_total:
  assumes "wf_puzzle cw" and "store_ok cw ds" and "var \<in> set (variables cw)"
  shows "\<forall>w \<in> set ws. int (length w) = var_length var \<Longrightarrow>
     \<exists>uv. unorderedValues cw ds a var ws acc = Inr uv \<and> fst ` set uv = fst ` set acc \<union> set ws"
proof (induction ws arbitrary: acc)
  case Nil
  then show ?case by simp
next
  case (Cons varWord rest)
  from Cons.prems have "int (length varWord) = var_length var" by simp
  from count_neighbors_total [OF assms this subset_refl] obtain n where
    "count_neighbors cw ds a var varWord (neighbors cw var) 0 = Inr n" by blast
  with Cons.IH [of "AList.update varWord n acc"] Cons.prems show ?case
    by (auto simp: dom_update)
qed

lemma order_domain_values_total:
  assumes "wf_puzzle cw" and "store_ok cw ds" and "var \<in> set (variables cw)"
  shows "\<exists>vals. order_domain_values cw var a ds = Inr vals \<and>
     (\<forall>w \<in> set vals. int (length w) = var_length var)"
proof -
  from store_ok_lookup [OF assms(2,3)] obtain d where
    d: "lookup ds var = Inr d" "\<forall>w \<in> set d. int (length w) = var_length var"
    by blast
  from unorderedValues_total [OF assms d(2), of a "[]"] obtain uv where
    uv: "unorderedValues cw ds a var d [] = Inr uv" "fst ` set uv = set d"
    by auto
  have "set (map fst (sort_key snd uv)) = fst ` set uv" by simp
  with d uv show ?thesis
    by (auto simp: order_domain_values_def simp del: set_map)
qed


definition assignment_ok :: "crossword \<Rightarrow> assignment \<Rightarrow> bool" where
  "assignment_ok cw a \<longleftrightarrow>
     (\<forall>p \<in> set a. fst p \<in> set (variables cw) \<and> int (length (snd p)) = var_length (fst p))"

lemma assignment_ok_lookup:
  "assignment_ok cw a \<Longrightarrow> v \<in> fst ` set a \<Longrightarrow>
     \<exists>w. lookup a v = Inr w \<and> int (length w) = var_length v"
proof -
  assume ok: "assignment_ok cw a" and "v \<in> fst ` set a"
  then obtain w where w: "map_of a v = Some w"
    by (metis domD dom_map_of_conv_image_fst)
  then have "(v, w) \<in> set a" by (rule map_of_SomeD)
  with ok w show ?thesis by (force simp: assignment_ok_def lookup_def)
qed

lemma assignment_ok_update:
  "assignment_ok cw a \<Longrightarrow> v \<in> set (variables cw) \<Longrightarrow> int (length w) = var_length v \<Longrightarrow>
     assignment_ok cw (AList.update v w a)"
proof -
  have "set (AList.update v w a) \<subseteq> insert (v, w) (set a)"
    by (induction a) auto
  then show "assignment_ok cw a \<Longrightarrow> v \<in> set (variables cw) \<Longrightarrow>
      int (length w) = var_length v \<Longrightarrow> assignment_ok cw (AList.update v w a)"
    unfolding assignment_ok_def by fastforce
qed

lemma ex_bool: "\<exists>b :: bool. b" "\<exists>b :: bool. \<not> b"
  by blast+

lemma consistent_neighbors_total:
  assumes "wf_puzzle cw" and "assignment_ok cw a" and "set (variables cw) \<subseteq> fst ` set a"
    and "var \<in> set (variables cw)"
  shows "set ns \<subseteq> set (neighbors cw var) \<Longrightarrow> \<exists>b. consistent_neighbors cw a var ns = Inr b"
proof (induction ns)
  case Nil
  show ?case by (simp add: ex_bool)
next
  case (Cons neighbor rest)
  from Cons.prems have nb: "neighbor \<in> set (neighbors cw var)" by simp
  with assms(1,4) obtain ix iy where
    ov: "overlaps cw (var, neighbor) = Some (Some (ix, iy))" and
    ix: "int ix < var_length var" and iy: "int iy < var_length neighbor" and
    v: "neighbor \<in> set (variables cw)"
    unfolding wf_puzzle_def by blast
  from assignment_ok_lookup [OF assms(2), of neighbor] v assms(3) obtain wn where
    wn: "lookup a neighbor = Inr wn" "int (length wn) = var_length neighbor" by blast
  from assignment_ok_lookup [OF assms(2), of var] assms(3,4) obtain wv where
    wv: "lookup a var = Inr wv" "int (length wv) = var_length var" by blast
  from ix iy wn(2) wv(2) have "ix < length wv" "iy < length wn" by simp_all
  with ov wn(1) wv(1) Cons show ?case by (auto simp: char_at_def ex_bool)
qed

lemma consistent_loop_total:
  assumes "wf_puzzle cw" and "assignment_ok cw a" and "set (variables cw) \<subseteq> fst ` set a"
  shows "set vs \<subseteq> fst ` set a \<Longrightarrow> \<exists>b. consistent_loop cw a vs = Inr b"
proof (induction vs)
  case Nil
  show ?case by (simp add: ex_bool)
next
  case (Cons var rest)
  from Cons.prems have k: "var \<in> fst ` set a" by simp
  with assms(2) have v: "var \<in> set (variables cw)"
    by (auto simp: assignment_ok_def)
  from assignment_ok_lookup [OF assms(2) k] obtain w where "lookup a var = Inr w" by blast
  moreover from consistent_neighbors_total [OF assms v subset_refl] obtain b where
    "consistent_neighbors cw a var (neighbors cw var) = Inr b" by blast
  ultimately show ?case using Cons by (auto simp: ex_bool)
qed

lemma consistent_total:
  assumes "wf_puzzle cw" and "assignment_ok cw a" and "assignment_complete cw a"
  shows "\<exists>b. consistent cw a = Inr b"
  using consistent_loop_total [OF assms(1,2), of "map fst a"] assms(3)
  by (simp add: consistent_def assignment_complete_keys)

lemma store_ok_keys: "store_ok cw ds \<Longrightarrow> \<forall>v \<in> set (variables cw). map_of ds v \<noteq> None"
  by (auto simp: store_ok_def)

lemma backtrack_total:
  "wf_puzzle cw \<Longrightarrow> store_ok cw (domains st) \<Longrightarrow> assignment_ok cw a \<Longrightarrow>
     \<exists>res st'. backtrack cw rnd a st = Inr (res, st') \<and> store_ok cw (domains st')"
  "wf_puzzle cw \<Longrightarrow> store_ok cw (domains st) \<Longrightarrow> assignment_ok cw a \<Longrightarrow>
   selectedVar \<in> set (variables cw) \<Longrightarrow>
   \<forall>w \<in> set vals. int (length w) = var_length selectedVar \<Longrightarrow>
     \<exists>res st'. backtrack_loop cw rnd a selectedVar vals st = Inr (res, st') \<and>
       store_ok cw (domains st')"
proof (induction cw rnd a st and cw rnd a selectedVar vals st
    rule: backtrack_backtrack_loop.induct)
  case (1 cw rnd a st)
  show ?case
  proof (cases "assignment_complete cw a")
    case True
    from consistent_total [OF "1.prems"(1,3) True] obtain b where "consistent cw a = Inr b"
      by blast
    with True "1.prems"(2) show ?thesis by (simp add: backtrack.simps)
  next
    case False
    from select_unassigned_variable_total [OF store_ok_keys [OF "1.prems"(2)] False, of rnd]
    obtain selectedVar st1 where
      sel: "select_unassigned_variable cw rnd a st = Inr (selectedVar, st1)" by blast
    from select_unassigned_variable_sound [OF sel] have
      v: "selectedVar \<in> set (variables cw)" and same: "domains st1 = domains st"
      by simp_all
    from "1.prems"(2) same have ok1: "store_ok cw (domains st1)" by simp
    from store_ok_lookup [OF ok1 v] obtain savedDomain where
      saved: "lookup (domains st1) selectedVar = Inr savedDomain" and
      len: "\<forall>w \<in> set savedDomain. int (length w) = var_length selectedVar"
      by blast
    from order_domain_values_total [OF "1.prems"(1) ok1 v, of a] obtain vals where
      vals: "order_domain_values cw selectedVar a (domains st1) = Inr vals" and
      vlen: "\<forall>w \<in> set vals. int (length w) = var_length selectedVar"
      by blast
    from "1.IH" [OF False sel refl saved vals "1.prems"(1) ok1 "1.prems"(3) v vlen]
    obtain res2 st2 where
      loop: "backtrack_loop cw rnd a selectedVar vals st1 = Inr (res2, st2)" and
      ok2: "store_ok cw (domains st2)"
      by blast
    from store_ok_update [OF ok2 len]
    have "store_ok cw (AList.update selectedVar savedDomain (domains st2))" .
    with False sel saved vals loop ok2 show ?thesis
      by (cases res2) (simp_all add: backtrack.simps)
  qed
next
  case (2 cw rnd a selectedVar st)
  then show ?case by (simp add: backtrack.simps)
next
  case (3 cw rnd a selectedVar val rest st)
  let ?arcs = "map (\<lambda>neighbor. (selectedVar, neighbor)) (neighbors cw selectedVar)"
  from "3.prems"(4) have
    "\<forall>arc \<in> set ?arcs. fst arc \<in> set (variables cw) \<and> snd arc \<in> set (neighbors cw (fst arc))"
    by auto
  from ac3_loop_total [OF "3.prems"(1,2) this] obtain ds1 where
    ac3: "ac3 cw (Some ?arcs) (domains st) = Inr (True, ds1)" and ok1: "store_ok cw ds1"
    by (auto simp: ac3_def)
  from "3.prems"(5) have "int (length val) = var_length selectedVar" by simp
  from assignment_ok_update [OF "3.prems"(3,4) this]
  have aok: "assignment_ok cw (AList.update selectedVar val a)" .
  from "3.IH"(1) [OF ac3 refl "3.prems"(1) _ aok] ok1 obtain res1 st1 where
    rec: "backtrack cw rnd (AList.update selectedVar val a) (st\<lparr>domains := ds1\<rparr>) = Inr (res1, st1)"
    and ok2: "store_ok cw (domains st1)"
    by auto
  show ?case
  proof (cases res1)
    case None
    from "3.prems"(5) have "\<forall>w \<in> set rest. int (length w) = var_length selectedVar" by simp
    from "3.IH"(2) [OF ac3 refl rec refl None "3.prems"(1) ok2 "3.prems"(3,4) this]
    obtain res st' where
      "backtrack_loop cw rnd a selectedVar rest st1 = Inr (res, st')" "store_ok cw (domains st')"
      by blast
    with ac3 rec None show ?thesis by (simp add: backtrack.simps)
  next
    case (Some r)
    with ac3 rec ok2 show ?thesis by (simp add: backtrack.simps)
  qed
qed

subsection \<open>What solve reports\<close>

lemma solve_total:
  assumes "wf_puzzle cw" and "\<forall>x \<in> set (variables cw). map_of (domains st) x \<noteq> None"
  shows "\<exists>res st'. solve cw rnd st = Inr (res, st')"
proof -
  from assms(1) have "distinct (variables cw)" by (simp add: wf_puzzle_def)
  from enforce_node_consistency_total [OF this assms(2)] obtain ds1 where
    node: "enforce_node_consistency cw (domains st) = Inr ds1" and ok1: "store_ok cw ds1"
    by blast
  have "\<forall>arc \<in> set (all_arcs cw).
      fst arc \<in> set (variables cw) \<and> snd arc \<in> set (neighbors cw (fst arc))"
    by (auto simp: all_arcs_def)
  from ac3_loop_total [OF assms(1) ok1 this] obtain ds2 where
    pass: "ac3 cw None ds1 = Inr (True, ds2)" and ok2: "store_ok cw ds2"
    by (auto simp: ac3_def)
  have "assignment_ok cw []" by (simp add: assignment_ok_def)
  with ok2 obtain res st' where
    "backtrack cw rnd [] (st\<lparr>domains := ds2\<rparr>) = Inr (res, st')"
    using backtrack_total(1) [OF assms(1), of "st\<lparr>domains := ds2\<rparr>" "[]" rnd] by auto
  with node pass show ?thesis by (simp add: solve_def)
qed

text \<open>
  C10. On a puzzle with no variables \<open>solve\<close> returns the empty assignment, a value
  \<open>Some []\<close> that is not the no-solution value \<open>None\<close>. A mapping that \<open>solve\<close>
  returns is never partial: it has a word for every variable, so it is empty only when
  the puzzle has no variables. On a well-formed puzzle whose store has a domain for
  every variable \<open>solve\<close> raises nothing: it returns \<open>None\<close>, or it returns a mapping
  with a word for every variable. So every failure is the value \<open>None\<close>.
\<close>

theorem solve_zero_variables_and_failure:
  "(variables cw = [] \<longrightarrow> solve cw rnd st = Inr (Some [], st)) \<and>
   (\<forall>r st'. solve cw rnd st = Inr (Some r, st') \<longrightarrow>
      set (variables cw) \<subseteq> fst ` set r \<and> (r = [] \<longrightarrow> variables cw = [])) \<and>
   (wf_puzzle cw \<and> (\<forall>x \<in> set (variables cw). map_of (domains st) x \<noteq> None) \<longrightarrow>
      (\<exists>st'. solve cw rnd st = Inr (None, st')) \<or>
      (\<exists>r st'. solve cw rnd st = Inr (Some r, st') \<and> set (variables cw) \<subseteq> fst ` set r))"
proof (intro conjI allI impI)
  assume none: "variables cw = []"
  then have "enforce_node_consistency cw (domains st) = Inr (domains st)"
    and "ac3 cw None (domains st) = Inr (True, domains st)"
    and "backtrack cw rnd [] st = Inr (Some [], st)"
    by (simp_all add: enforce_node_consistency_def ac3_def all_arcs_def backtrack.simps
        assignment_complete_def consistent_def)
  then show "solve cw rnd st = Inr (Some [], st)"
    by (simp add: solve_def)
next
  fix r st'
  assume "solve cw rnd st = Inr (Some r, st')"
  from solve_is_backtrack [OF this] obtain ds2 where
    "backtrack cw rnd [] (st\<lparr>domains := ds2\<rparr>) = Inr (Some r, st')" by blast
  from backtrack_success_checked(1) [OF this]
  show complete: "set (variables cw) \<subseteq> fst ` set r"
    by (simp add: assignment_complete_keys)
  then show "variables cw = []" if "r = []"
    using that by simp
next
  assume "wf_puzzle cw \<and> (\<forall>x \<in> set (variables cw). map_of (domains st) x \<noteq> None)"
  then obtain res st' where out: "solve cw rnd st = Inr (res, st')"
    using solve_total [of cw st rnd] by blast
  show "(\<exists>st'. solve cw rnd st = Inr (None, st')) \<or>
      (\<exists>r st'. solve cw rnd st = Inr (Some r, st') \<and> set (variables cw) \<subseteq> fst ` set r)"
  proof (cases res)
    case None
    with out show ?thesis by blast
  next
    case (Some r)
    with out have run: "solve cw rnd st = Inr (Some r, st')" by simp
    from solve_is_backtrack [OF run] obtain ds2 where
      "backtrack cw rnd [] (st\<lparr>domains := ds2\<rparr>) = Inr (Some r, st')" by blast
    from backtrack_success_checked(1) [OF this]
    have "set (variables cw) \<subseteq> fst ` set r"
      by (simp add: assignment_complete_keys)
    with run show ?thesis by blast
  qed
qed

text \<open>
  The instances: the puzzle without slots; the chain puzzle, which has a solution; and
  two slots of three letters that do not cross, with CAT as the only word. There the
  search gives CAT to both slots, \<open>consistent\<close> refuses the repeated word, no candidate
  is left, and \<open>solve\<close> returns \<open>None\<close>.
\<close>

theorem solve_zero_variables_witness:
  "solve (empty_puzzle vocabulary5) first_choice (init (empty_puzzle vocabulary5)) =
     Inr (Some [], init (empty_puzzle vocabulary5)) \<and>
   Some ([] :: assignment) \<noteq> None \<and>
   solve (chain_puzzle vocabulary5) first_choice (init (chain_puzzle vocabulary5)) =
     Inr (Some [(slot_c, ''DREAM''), (slot_b, ''COLD''), (slot_a, ''CAT'')],
          \<lparr>domains = [(slot_a, [''CAT'']), (slot_b, [''COLD'']), (slot_c, [''DREAM''])],
           rng_draws = 2\<rparr>) \<and>
   set (variables (chain_puzzle vocabulary5)) \<subseteq>
     fst ` set [(slot_c, ''DREAM''), (slot_b, ''COLD''), (slot_a, ''CAT'')] \<and>
   wf_puzzle (disjoint_puzzle [''CAT'']) \<and>
   solve (disjoint_puzzle [''CAT'']) first_choice (init (disjoint_puzzle [''CAT''])) =
     Inr (None, \<lparr>domains = [(slot_a, [''CAT'']), (slot_e, [''CAT''])], rng_draws = 1\<rparr>) \<and>
   (\<exists>st'. solve (disjoint_puzzle [''CAT'']) first_choice (init (disjoint_puzzle [''CAT''])) = Inr (None, st'))"
proof -
  let ?P = "chain_puzzle vocabulary5"
  let ?D = "disjoint_puzzle [''CAT'']"
  have zero: "variables (empty_puzzle vocabulary5) = []"
    by (simp add: empty_puzzle_def)
  have run: "solve ?P first_choice (init ?P) =
     Inr (Some [(slot_c, ''DREAM''), (slot_b, ''COLD''), (slot_a, ''CAT'')],
          \<lparr>domains = [(slot_a, [''CAT'']), (slot_b, [''COLD'']), (slot_c, [''DREAM''])],
           rng_draws = 2\<rparr>)"
    by code_simp
  from solve_zero_variables_and_failure
    [of "empty_puzzle vocabulary5" first_choice "init (empty_puzzle vocabulary5)"] zero
  have one: "solve (empty_puzzle vocabulary5) first_choice (init (empty_puzzle vocabulary5)) =
     Inr (Some [], init (empty_puzzle vocabulary5))"
    by blast
  from solve_zero_variables_and_failure [of ?P first_choice "init ?P"] run
  have two: "set (variables ?P) \<subseteq>
     fst ` set [(slot_c, ''DREAM''), (slot_b, ''COLD''), (slot_a, ''CAT'')]"
    by blast
  have wf: "wf_puzzle ?D"
    by (simp add: wf_puzzle_def disjoint_puzzle_def slot_a_def slot_e_def)
  have keys: "\<forall>x \<in> set (variables ?D). map_of (domains (init ?D)) x \<noteq> None"
    by (simp add: init_def init_domains_def disjoint_puzzle_def slot_a_def slot_e_def)
  have fails: "solve ?D first_choice (init ?D) =
     Inr (None, \<lparr>domains = [(slot_a, [''CAT'']), (slot_e, [''CAT''])], rng_draws = 1\<rparr>)"
    by code_simp
  from solve_zero_variables_and_failure [of ?D first_choice "init ?D"] wf keys
  have "(\<exists>st'. solve ?D first_choice (init ?D) = Inr (None, st')) \<or>
      (\<exists>r st'. solve ?D first_choice (init ?D) = Inr (Some r, st') \<and>
         set (variables ?D) \<subseteq> fst ` set r)"
    by blast
  with fails have three: "\<exists>st'. solve ?D first_choice (init ?D) = Inr (None, st')"
    by simp
  from one run two wf fails three show ?thesis by simp
qed

subsection \<open>solve on a store with an empty domain\<close>

lemma map_of_update_other: "v \<noteq> x \<Longrightarrow> lookup (AList.update x d ds) v = lookup ds v"
  by (simp add: lookup_def update_conv')

lemma revise_keeps_empty:
  assumes "revise cw x y ds = Inr (b, ds')" and "lookup ds v = Inr []"
  shows "lookup ds' v = Inr []"
proof (cases "v = x")
  case True
  with assms show ?thesis
    by (auto simp: revise_def Let_def lookup_update_same split: option.splits sum.splits)
next
  case False
  with revise_store [OF assms(1)] assms(2) show ?thesis
    by (auto simp: map_of_update_other)
qed

lemma ac3_step_revise:
  assumes "ac3_step cw temp queue ds = Inr s"
  shows "\<exists>b ds1. revise cw (fst temp) (snd temp) ds = Inr (b, ds1) \<and> s = Continue queue ds1"
  using assms revise_result_False [of cw "fst temp" "snd temp" ds]
  by (auto simp: ac3_step_def split: sum.splits if_splits)

lemma ac3_loop_keeps_empty:
  "ac3_loop cw queue ds = Inr (b, ds') \<Longrightarrow> lookup ds v = Inr [] \<Longrightarrow> lookup ds' v = Inr []"
proof (induction cw queue ds rule: ac3_loop.induct)
  case (1 cw ds)
  then show ?case by simp
next
  case (2 cw temp queue ds)
  from "2.prems"(1) obtain s where s: "ac3_step cw temp queue ds = Inr s"
    by (auto split: sum.splits)
  from ac3_step_revise [OF s] obtain r ds1 where
    rev: "revise cw (fst temp) (snd temp) ds = Inr (r, ds1)" and c: "s = Continue queue ds1"
    by blast
  from s c "2.prems"(1) have "ac3_loop cw queue ds1 = Inr (b, ds')" by simp
  from "2.IH" [OF s c this revise_keeps_empty [OF rev "2.prems"(2)]] show ?case .
qed

lemma ac3_keeps_empty:
  "ac3 cw arcs ds = Inr (b, ds') \<Longrightarrow> lookup ds v = Inr [] \<Longrightarrow> lookup ds' v = Inr []"
  unfolding ac3_def by (rule ac3_loop_keeps_empty)

lemma order_domain_values_empty:
  "lookup ds var = Inr [] \<Longrightarrow> order_domain_values cw var a ds = Inr []"
  by (simp add: order_domain_values_def)

lemma backtrack_empty_domain:
  "backtrack cw rnd a st = Inr (res, st') \<Longrightarrow> v \<in> set (variables cw) \<Longrightarrow>
     v \<notin> fst ` set a \<Longrightarrow> lookup (domains st) v = Inr [] \<Longrightarrow> res = None"
  "backtrack_loop cw rnd a selectedVar vals st = Inr (res, st') \<Longrightarrow> v \<in> set (variables cw) \<Longrightarrow>
     v \<notin> fst ` set a \<Longrightarrow> lookup (domains st) v = Inr [] \<Longrightarrow> selectedVar \<noteq> v \<Longrightarrow>
     res = None"
proof (induction cw rnd a st and cw rnd a selectedVar vals st arbitrary: res st' and res st'
    rule: backtrack_backtrack_loop.induct)
  case (1 cw rnd a st)
  from "1.prems"(2,3) have incomplete: "\<not> assignment_complete cw a"
    by (auto simp: assignment_complete_keys)
  with "1.prems"(1) obtain selectedVar st1 savedDomain vals res2 st2 where
    sel: "select_unassigned_variable cw rnd a st = Inr (selectedVar, st1)" and
    saved: "lookup (domains st1) selectedVar = Inr savedDomain" and
    vals: "order_domain_values cw selectedVar a (domains st1) = Inr vals" and
    loop: "backtrack_loop cw rnd a selectedVar vals st1 = Inr (res2, st2)" and
    res: "res2 = None \<longrightarrow> res = None" "res2 \<noteq> None \<longrightarrow> res = res2"
    by (auto simp: backtrack.simps split: sum.splits option.splits)
  from select_unassigned_variable_sound [OF sel] "1.prems"(4)
  have empty: "lookup (domains st1) v = Inr []" by simp
  show ?case
  proof (cases "selectedVar = v")
    case True
    with empty vals have "vals = []" by (simp add: order_domain_values_empty)
    with loop have "res2 = None" by (simp add: backtrack.simps)
    with res show ?thesis by simp
  next
    case False
    from "1.IH" [OF incomplete sel refl saved vals loop "1.prems"(2,3) empty False]
    have "res2 = None" .
    with res show ?thesis by simp
  qed
next
  case (2 cw rnd a selectedVar st)
  then show ?case by (simp add: backtrack.simps)
next
  case (3 cw rnd a selectedVar val rest st)
  let ?arcs = "map (\<lambda>neighbor. (selectedVar, neighbor)) (neighbors cw selectedVar)"
  from "3.prems"(1) obtain ok ds1 res1 st1 where
    ac3: "ac3 cw (Some ?arcs) (domains st) = Inr (ok, ds1)" and
    rec: "backtrack cw rnd (AList.update selectedVar val a) (st\<lparr>domains := ds1\<rparr>) = Inr (res1, st1)" and
    rest: "(res1 \<noteq> None \<and> res = res1) \<or>
           (res1 = None \<and> backtrack_loop cw rnd a selectedVar rest st1 = Inr (res, st'))"
    by (auto simp: backtrack.simps split: sum.splits option.splits)
  from ac3_keeps_empty [OF ac3 "3.prems"(4)] have e1: "lookup ds1 v = Inr []" .
  from "3.prems"(3,5) have fresh: "v \<notin> fst ` set (AList.update selectedVar val a)"
    by (simp add: dom_update)
  from "3.IH"(1) [OF ac3 refl rec "3.prems"(2) fresh] e1 have none: "res1 = None" by simp
  with rec have "domains st1 = ds1"
    using backtrack_failure_store(1) [of cw rnd "AList.update selectedVar val a"] by simp
  with e1 have e2: "lookup (domains st1) v = Inr []" by simp
  from rest none have "backtrack_loop cw rnd a selectedVar rest st1 = Inr (res, st')" by simp
  from "3.IH"(2) [OF ac3 refl rec [unfolded none] refl refl this "3.prems"(2,3) e2 "3.prems"(5)]
  show ?case .
qed


text \<open>
  C4, as the code has it. \<open>solve\<close> runs node consistency and the global pass, discards
  what the pass returns and always calls \<open>backtrack\<close> on the empty assignment. When one
  of the two passes leaves a variable with an empty domain, the value that \<open>solve\<close>
  returns, if it returns one, is still \<open>None\<close>: it is the result of the search. On a
  well-formed puzzle whose store has a domain for every variable \<open>solve\<close> does return,
  so it returns \<open>None\<close>.
\<close>

theorem solve_searches_with_empty_domain:
  assumes "enforce_node_consistency cw (domains st) = Inr ds1"
    and "ac3 cw None ds1 = Inr (ok, ds2)"
    and "v \<in> set (variables cw)"
    and "lookup ds1 v = Inr [] \<or> lookup ds2 v = Inr []"
  shows "solve cw rnd st = backtrack cw rnd [] (st\<lparr>domains := ds2\<rparr>) \<and>
    (\<forall>res st'. solve cw rnd st = Inr (res, st') \<longrightarrow> res = None) \<and>
    (wf_puzzle cw \<and> (\<forall>x \<in> set (variables cw). map_of (domains st) x \<noteq> None) \<longrightarrow>
       (\<exists>st'. solve cw rnd st = Inr (None, st')))"
proof -
  from assms(1,2) have eq: "solve cw rnd st = backtrack cw rnd [] (st\<lparr>domains := ds2\<rparr>)"
    by (simp add: solve_def)
  from assms(2,4) have empty: "lookup ds2 v = Inr []"
    by (auto dest: ac3_keeps_empty)
  have none: "res = None"
    if "backtrack cw rnd [] (st\<lparr>domains := ds2\<rparr>) = Inr (res, st')" for res st'
    using backtrack_empty_domain(1) [OF that assms(3)] empty by simp
  have returns: "\<exists>st'. solve cw rnd st = Inr (None, st')"
    if wf: "wf_puzzle cw" and keys: "\<forall>x \<in> set (variables cw). map_of (domains st) x \<noteq> None"
  proof -
    from wf have "distinct (variables cw)" by (simp add: wf_puzzle_def)
    from enforce_node_consistency_total [OF this keys] assms(1)
    have ok1: "store_ok cw ds1" by simp
    have "\<forall>arc \<in> set (all_arcs cw).
        fst arc \<in> set (variables cw) \<and> snd arc \<in> set (neighbors cw (fst arc))"
      by (auto simp: all_arcs_def)
    from ac3_loop_total [OF wf ok1 this] assms(2)
    have "store_ok cw (domains (st\<lparr>domains := ds2\<rparr>))"
      by (simp add: ac3_def)
    moreover have "assignment_ok cw []" by (simp add: assignment_ok_def)
    ultimately obtain res st' where
      "backtrack cw rnd [] (st\<lparr>domains := ds2\<rparr>) = Inr (res, st')"
      using backtrack_total(1) [OF wf] by blast
    with none eq show ?thesis by auto
  qed
  from eq none returns show ?thesis by simp
qed

theorem solve_searches_witness:
  "wf_puzzle (chain_puzzle vocabulary4) \<and>
   enforce_node_consistency (chain_puzzle vocabulary4) (domains (init (chain_puzzle vocabulary4))) =
     Inr [(slot_a, [''DOG'', ''CAT'']), (slot_b, [''COLD'', ''DAMP'']), (slot_c, [])] \<and>
   ac3 (chain_puzzle vocabulary4) None [(slot_a, [''DOG'', ''CAT'']), (slot_b, [''COLD'', ''DAMP'']), (slot_c, [])] =
     Inr (True, [(slot_a, [''DOG'', ''CAT'']), (slot_b, []), (slot_c, [])]) \<and>
   slot_c \<in> set (variables (chain_puzzle vocabulary4)) \<and>
   lookup [(slot_a, [''DOG'', ''CAT'']), (slot_b, [''COLD'', ''DAMP'']), (slot_c, [])] slot_c = Inr [] \<and>
   solve (chain_puzzle vocabulary4) first_choice (init (chain_puzzle vocabulary4)) =
     backtrack (chain_puzzle vocabulary4) first_choice []
       ((init (chain_puzzle vocabulary4))\<lparr>domains := [(slot_a, [''DOG'', ''CAT'']), (slot_b, []), (slot_c, [])]\<rparr>) \<and>
   (\<exists>st'. solve (chain_puzzle vocabulary4) first_choice (init (chain_puzzle vocabulary4)) = Inr (None, st'))"
proof -
  let ?P = "chain_puzzle vocabulary4"
  have wf: "wf_puzzle ?P"
    by (simp add: wf_puzzle_def chain_puzzle_def slot_a_def slot_b_def slot_c_def)
  have keys: "\<forall>x \<in> set (variables ?P). map_of (domains (init ?P)) x \<noteq> None"
    by (simp add: init_def init_domains_def chain_puzzle_def slot_a_def slot_b_def slot_c_def)
  have node: "enforce_node_consistency ?P (domains (init ?P)) = Inr [(slot_a, [''DOG'', ''CAT'']), (slot_b, [''COLD'', ''DAMP'']), (slot_c, [])]"
    by code_simp
  have pruned: "ac3 ?P None [(slot_a, [''DOG'', ''CAT'']), (slot_b, [''COLD'', ''DAMP'']), (slot_c, [])] = Inr (True, [(slot_a, [''DOG'', ''CAT'']), (slot_b, []), (slot_c, [])])"
    by code_simp
  have var: "slot_c \<in> set (variables ?P)"
    by (simp add: chain_puzzle_def)
  have empty: "lookup [(slot_a, [''DOG'', ''CAT'']), (slot_b, [''COLD'', ''DAMP'']), (slot_c, [])] slot_c = Inr []"
    by code_simp
  from solve_searches_with_empty_domain [OF node pruned var disjI1 [OF empty], of first_choice]
    wf keys
  have "solve ?P first_choice (init ?P) =
      backtrack ?P first_choice [] ((init ?P)\<lparr>domains := [(slot_a, [''DOG'', ''CAT'']), (slot_b, []), (slot_c, [])]\<rparr>) \<and>
    (\<exists>st'. solve ?P first_choice (init ?P) = Inr (None, st'))"
    by blast
  with wf node pruned var empty show ?thesis by blast
qed

text \<open>
  C4 as stated fails on the chain puzzle with the vocabulary DOG, CAT, COLD, DAMP: no
  word has the length of \<open>slot_c\<close>, so node consistency empties its domain. The global
  pass returns \<open>True\<close>, and \<open>solve\<close> returns \<open>None\<close> after one draw from the random
  generator. Only \<open>select_unassigned_variable\<close> draws, and only \<open>backtrack\<close> calls it:
  the search was entered.
\<close>

theorem solve_enters_search_counterexample:
  "enforce_node_consistency (chain_puzzle vocabulary4) (init_domains (chain_puzzle vocabulary4)) =
     Inr [(slot_a, [''DOG'', ''CAT'']), (slot_b, [''COLD'', ''DAMP'']), (slot_c, [])] \<and>
   ac3 (chain_puzzle vocabulary4) None
       [(slot_a, [''DOG'', ''CAT'']), (slot_b, [''COLD'', ''DAMP'']), (slot_c, [])] =
     Inr (True, [(slot_a, [''DOG'', ''CAT'']), (slot_b, []), (slot_c, [])]) \<and>
   rng_draws (init (chain_puzzle vocabulary4)) = 0 \<and>
   solve (chain_puzzle vocabulary4) first_choice (init (chain_puzzle vocabulary4)) =
     Inr (None, \<lparr>domains = [(slot_a, [''DOG'', ''CAT'']), (slot_b, []), (slot_c, [])],
                 rng_draws = 1\<rparr>)"
  by code_simp

subsection \<open>The signal of revise and what ac3 makes of it\<close>

lemma ac3_loop_True: "ac3_loop cw queue ds = Inr (b, ds') \<Longrightarrow> b"
proof (induction cw queue ds rule: ac3_loop.induct)
  case (1 cw ds)
  then show ?case by simp
next
  case (2 cw temp queue ds)
  from "2.prems" obtain s where s: "ac3_step cw temp queue ds = Inr s"
    by (auto split: sum.splits)
  from ac3_step_revise [OF s] obtain ds1 where c: "s = Continue queue ds1"
    by blast
  from s c "2.prems" have "ac3_loop cw queue ds1 = Inr (b, ds')" by simp
  from "2.IH" [OF s c this] show ?case .
qed


text \<open>
  What \<open>revise(x, y)\<close> stores: the words of the domain of \<open>x\<close>, in order, that agree
  with some word of the domain of \<open>y\<close> at the overlap.
\<close>

lemma overlapWords_filter:
  "overlapWords (Some (ix, iy)) wordX dom_y = Inr ows \<Longrightarrow>
     ows = filter (\<lambda>wordY. wordX ! ix = wordY ! iy) dom_y"
  by (induction dom_y arbitrary: ows) (auto simp: char_at_def split: sum.splits if_splits)

lemma revise_loop_filter:
  "revise_loop (Some (ix, iy)) ds y dom_x = Inr domain \<Longrightarrow> lookup ds y = Inr dom_y \<Longrightarrow>
     domain = filter (\<lambda>wordX. \<exists>wordY \<in> set dom_y. wordX ! ix = wordY ! iy) dom_x"
proof (induction dom_x arbitrary: domain)
  case Nil
  then show ?case by simp
next
  case (Cons wordX rest)
  from Cons.prems obtain ows tail where
    ows: "overlapWords (Some (ix, iy)) wordX dom_y = Inr ows" and
    tail: "revise_loop (Some (ix, iy)) ds y rest = Inr tail" and
    dom: "domain = (if length ows \<noteq> 0 then wordX # tail else tail)"
    by (auto split: sum.splits)
  from overlapWords_filter [OF ows]
  have "length ows \<noteq> 0 \<longleftrightarrow> (\<exists>wordY \<in> set dom_y. wordX ! ix = wordY ! iy)"
    by (auto simp: filter_empty_conv)
  with dom Cons.IH [OF tail Cons.prems(2)] show ?case by simp
qed

lemma revise_removes_unsupported:
  assumes "revise cw x y ds = Inr (revised, ds')"
    and "overlaps cw (x, y) = Some (Some (ix, iy))"
    and "lookup ds x = Inr dom_x" and "lookup ds y = Inr dom_y"
  shows "ds' = AList.update x
      (filter (\<lambda>wordX. \<exists>wordY \<in> set dom_y. wordX ! ix = wordY ! iy) dom_x) ds"
  using assms
  by (auto simp: revise_def Let_def lookup_update_same split: sum.splits
      dest: revise_loop_filter)

text \<open>
  C1, at a store where the claim and the code part. After node consistency on the chain
  puzzle (vocabulary DOG, CAT, COLD, DAMP, DREAM) \<open>slot_b\<close> has COLD and DAMP and
  \<open>slot_c\<close> has DREAM. \<open>revise(slot_b, slot_c)\<close> removes DAMP, which no word of
  \<open>slot_c\<close> supports, and yet returns \<open>False\<close>. On no input does \<open>revise\<close> return
  \<open>True\<close>.
\<close>

theorem revise_never_reports_change:
  "revise cw x y ds \<noteq> Inr (True, ds') \<and>
   lookup [(slot_a, [''DOG'', ''CAT'']), (slot_b, [''COLD'', ''DAMP'']), (slot_c, [''DREAM''])] slot_b = Inr [''COLD'', ''DAMP''] \<and>
   revise (chain_puzzle vocabulary5) slot_b slot_c
       [(slot_a, [''DOG'', ''CAT'']), (slot_b, [''COLD'', ''DAMP'']), (slot_c, [''DREAM''])] =
     Inr (False, [(slot_a, [''DOG'', ''CAT'']), (slot_b, [''COLD'']), (slot_c, [''DREAM''])])"
proof (intro conjI)
  show "revise cw x y ds \<noteq> Inr (True, ds')"
    by (auto dest: revise_result_False)
  show "lookup [(slot_a, [''DOG'', ''CAT'']), (slot_b, [''COLD'', ''DAMP'']), (slot_c, [''DREAM''])] slot_b = Inr [''COLD'', ''DAMP'']"
    by code_simp
  show "revise (chain_puzzle vocabulary5) slot_b slot_c
       [(slot_a, [''DOG'', ''CAT'']), (slot_b, [''COLD'', ''DAMP'']), (slot_c, [''DREAM''])] =
     Inr (False, [(slot_a, [''DOG'', ''CAT'']), (slot_b, [''COLD'']), (slot_c, [''DREAM''])])"
    by code_simp
qed

text \<open>
  C2, at a store where the claim and the code part. On the chain puzzle the global pass
  visits the arcs \<open>(a, b)\<close>, \<open>(b, a)\<close>, \<open>(b, c)\<close>, \<open>(c, b)\<close> once each and returns
  \<open>True\<close>. DOG stays in the domain of \<open>slot_a\<close>, supported by DAMP when \<open>(a, b)\<close> is
  revised; DAMP is removed later, at \<open>(b, c)\<close>. In the final store \<open>slot_b\<close> has COLD
  only, and no word of \<open>slot_b\<close> agrees with DOG at the overlap \<open>(0, 0)\<close>. The same
  holds when the four arcs are passed as the list \<open>arcs\<close>.
\<close>

theorem ac3_success_without_arc_consistency:
  "ac3 (chain_puzzle vocabulary5) None
       [(slot_a, [''DOG'', ''CAT'']), (slot_b, [''COLD'', ''DAMP'']), (slot_c, [''DREAM''])] =
     Inr (True, [(slot_a, [''DOG'', ''CAT'']), (slot_b, [''COLD'']), (slot_c, [''DREAM''])]) \<and>
   ac3 (chain_puzzle vocabulary5)
       (Some [(slot_a, slot_b), (slot_b, slot_a), (slot_b, slot_c), (slot_c, slot_b)])
       [(slot_a, [''DOG'', ''CAT'']), (slot_b, [''COLD'', ''DAMP'']), (slot_c, [''DREAM''])] =
     Inr (True, [(slot_a, [''DOG'', ''CAT'']), (slot_b, [''COLD'']), (slot_c, [''DREAM''])]) \<and>
   neighbors (chain_puzzle vocabulary5) slot_a = [slot_b] \<and>
   overlaps (chain_puzzle vocabulary5) (slot_a, slot_b) = Some (Some (0, 0)) \<and>
   lookup [(slot_a, [''DOG'', ''CAT'']), (slot_b, [''COLD'']), (slot_c, [''DREAM''])] slot_a = Inr [''DOG'', ''CAT''] \<and>
   lookup [(slot_a, [''DOG'', ''CAT'']), (slot_b, [''COLD'']), (slot_c, [''DREAM''])] slot_b = Inr [''COLD''] \<and>
   overlapWords (Some (0, 0)) ''DOG'' [''COLD''] = Inr [] \<and>
   char_at ''DOG'' 0 = Inr CHR ''D'' \<and> char_at ''COLD'' 0 = Inr CHR ''C''"
  by code_simp

text \<open>
  C5, at a store where the claim and the code part. On the chain puzzle without a word
  of five letters the domain of \<open>slot_c\<close> is empty after node consistency. The global
  pass empties the domain of \<open>slot_b\<close> at the arc \<open>(b, c)\<close>, goes on to the arc
  \<open>(c, b)\<close> and returns \<open>True\<close>; so does \<open>ac3\<close> started on the single arc \<open>(b, c)\<close>.
  On no input does \<open>ac3\<close> return \<open>False\<close>.
\<close>

theorem ac3_never_reports_failure:
  "ac3 cw arcs ds \<noteq> Inr (False, ds') \<and>
   lookup [(slot_a, [''DOG'', ''CAT'']), (slot_b, [''COLD'', ''DAMP'']), (slot_c, [])] slot_b = Inr [''COLD'', ''DAMP''] \<and>
   ac3 (chain_puzzle vocabulary4) None
       [(slot_a, [''DOG'', ''CAT'']), (slot_b, [''COLD'', ''DAMP'']), (slot_c, [])] =
     Inr (True, [(slot_a, [''DOG'', ''CAT'']), (slot_b, []), (slot_c, [])]) \<and>
   ac3 (chain_puzzle vocabulary4) (Some [(slot_b, slot_c)])
       [(slot_a, [''DOG'', ''CAT'']), (slot_b, [''COLD'', ''DAMP'']), (slot_c, [])] =
     Inr (True, [(slot_a, [''DOG'', ''CAT'']), (slot_b, []), (slot_c, [])])"
proof (intro conjI)
  show "ac3 cw arcs ds \<noteq> Inr (False, ds')"
    by (auto simp: ac3_def dest: ac3_loop_True)
  show "lookup [(slot_a, [''DOG'', ''CAT'']), (slot_b, [''COLD'', ''DAMP'']), (slot_c, [])] slot_b = Inr [''COLD'', ''DAMP'']"
    by code_simp
  show "ac3 (chain_puzzle vocabulary4) None
       [(slot_a, [''DOG'', ''CAT'']), (slot_b, [''COLD'', ''DAMP'']), (slot_c, [])] =
     Inr (True, [(slot_a, [''DOG'', ''CAT'']), (slot_b, []), (slot_c, [])])"
    by code_simp
  show "ac3 (chain_puzzle vocabulary4) (Some [(slot_b, slot_c)])
       [(slot_a, [''DOG'', ''CAT'']), (slot_b, [''COLD'', ''DAMP'']), (slot_c, [])] =
     Inr (True, [(slot_a, [''DOG'', ''CAT'']), (slot_b, []), (slot_c, [])])"
    by code_simp
qed

text \<open>
  C6, at a store where the claim and the code part. In the global pass on the chain
  puzzle the arc \<open>(slot_b, slot_c)\<close> is popped with \<open>(slot_c, slot_b)\<close> left in the
  queue. The revision reduces the domain of \<open>slot_b\<close> from COLD, DAMP to COLD;
  \<open>slot_b\<close> has the neighbour \<open>slot_a\<close> besides \<open>slot_c\<close>; the queue after the
  iteration is still \<open>(slot_c, slot_b)\<close> alone. No iteration ever appends an arc. The
  list the source would append here is empty as well: its test
  \<open>z.i != y.i and z.j != y.j\<close> drops \<open>slot_a\<close>, which starts in the column of \<open>slot_c\<close>.
\<close>

theorem ac3_step_appends_nothing:
  "ac3_step cw temp queue ds \<noteq> Inr (Continue (queue @ arc # arcs) ds') \<and>
   lookup [(slot_a, [''DOG'', ''CAT'']), (slot_b, [''COLD'', ''DAMP'']), (slot_c, [''DREAM''])] slot_b = Inr [''COLD'', ''DAMP''] \<and>
   ac3_step (chain_puzzle vocabulary5) (slot_b, slot_c) [(slot_c, slot_b)]
       [(slot_a, [''DOG'', ''CAT'']), (slot_b, [''COLD'', ''DAMP'']), (slot_c, [''DREAM''])] =
     Inr (Continue [(slot_c, slot_b)]
       [(slot_a, [''DOG'', ''CAT'']), (slot_b, [''COLD'']), (slot_c, [''DREAM''])]) \<and>
   neighbors (chain_puzzle vocabulary5) slot_b = [slot_a, slot_c] \<and>
   requeue (chain_puzzle vocabulary5) slot_b slot_c = []"
proof (intro conjI)
  show "ac3_step cw temp queue ds \<noteq> Inr (Continue (queue @ arc # arcs) ds')"
    by (auto dest: ac3_step_Continue)
  show "lookup [(slot_a, [''DOG'', ''CAT'']), (slot_b, [''COLD'', ''DAMP'']), (slot_c, [''DREAM''])] slot_b = Inr [''COLD'', ''DAMP'']"
    by code_simp
  show "ac3_step (chain_puzzle vocabulary5) (slot_b, slot_c) [(slot_c, slot_b)]
       [(slot_a, [''DOG'', ''CAT'']), (slot_b, [''COLD'', ''DAMP'']), (slot_c, [''DREAM''])] =
     Inr (Continue [(slot_c, slot_b)]
       [(slot_a, [''DOG'', ''CAT'']), (slot_b, [''COLD'']), (slot_c, [''DREAM''])])"
    by code_simp
  show "neighbors (chain_puzzle vocabulary5) slot_b = [slot_a, slot_c]"
    by code_simp
  show "requeue (chain_puzzle vocabulary5) slot_b slot_c = []"
    by code_simp
qed

subsection \<open>The two heuristics\<close>

text \<open>
  C8, at a state where the claim and the code part. After the two passes of \<open>solve\<close> on
  the chain puzzle \<open>slot_b\<close> and \<open>slot_c\<close> have one word each and \<open>slot_a\<close> has two.
  \<open>slot_b\<close> has two neighbours and \<open>slot_c\<close> has one. With nothing assigned, and
  whatever the random generator yields, \<open>select_unassigned_variable\<close> returns
  \<open>slot_c\<close>, the variable with the fewer neighbours: the source keeps the variables whose
  degree is \<open>min(varDegree.values())\<close>. Had the global pass visited the arc \<open>(b, c)\<close>
  before \<open>(a, b)\<close>, all three domains would hold one word; the choice is then between
  \<open>slot_a\<close> and \<open>slot_c\<close>, and \<open>slot_b\<close> is again left out.
\<close>

theorem select_prefers_fewest_neighbors:
  "select_unassigned_variable (chain_puzzle vocabulary5) rnd []
       \<lparr>domains = [(slot_a, [''DOG'', ''CAT'']), (slot_b, [''COLD'']), (slot_c, [''DREAM''])], rng_draws = n\<rparr> =
     Inr (slot_c, \<lparr>domains = [(slot_a, [''DOG'', ''CAT'']), (slot_b, [''COLD'']), (slot_c, [''DREAM''])], rng_draws = Suc n\<rparr>) \<and>
   select_unassigned_variable (chain_puzzle vocabulary5) rnd []
       \<lparr>domains = [(slot_a, [''CAT'']), (slot_b, [''COLD'']), (slot_c, [''DREAM''])], rng_draws = n\<rparr> =
     Inr ([slot_a, slot_c] ! (rnd n mod length [slot_a, slot_c]),
          \<lparr>domains = [(slot_a, [''CAT'']), (slot_b, [''COLD'']), (slot_c, [''DREAM''])], rng_draws = Suc n\<rparr>) \<and>
   [slot_a, slot_c] ! (rnd n mod length [slot_a, slot_c]) \<noteq> slot_b \<and>
   lookup [(slot_a, [''DOG'', ''CAT'']), (slot_b, [''COLD'']), (slot_c, [''DREAM''])] slot_a = Inr [''DOG'', ''CAT''] \<and>
   lookup [(slot_a, [''DOG'', ''CAT'']), (slot_b, [''COLD'']), (slot_c, [''DREAM''])] slot_b = Inr [''COLD''] \<and>
   lookup [(slot_a, [''DOG'', ''CAT'']), (slot_b, [''COLD'']), (slot_c, [''DREAM''])] slot_c = Inr [''DREAM''] \<and>
   length (neighbors (chain_puzzle vocabulary5) slot_a) = 1 \<and>
   length (neighbors (chain_puzzle vocabulary5) slot_b) = 2 \<and>
   length (neighbors (chain_puzzle vocabulary5) slot_c) = 1"
proof -
  have "[slot_a, slot_c] ! k \<noteq> slot_b" if "k < length [slot_a, slot_c]" for k
    using that by (cases k) (simp_all add: slot_a_def slot_b_def slot_c_def)
  moreover have "rnd n mod length [slot_a, slot_c] < length [slot_a, slot_c]"
    by simp
  ultimately have "[slot_a, slot_c] ! (rnd n mod length [slot_a, slot_c]) \<noteq> slot_b"
    by blast
  then show ?thesis
    by (simp add: select_unassigned_variable_def chain_puzzle_def slot_a_def slot_b_def slot_c_def
        lookup_def min_values_def varDegree_def random_choice_def)
qed

text \<open>
  C9, at a state where the claim and the code part. With the vocabulary DOG, CAT, COLD,
  CALM, DAMP, DREAM, MAGIC, PIANO the two passes of \<open>solve\<close> change nothing after node
  consistency, and \<open>slot_a\<close>, with the fewest words, is selected first. Its neighbour
  \<open>slot_b\<close> is unassigned and has COLD, CALM and DAMP. The count of DOG is 1 (DAMP
  agrees with it) and the count of CAT is 2 (COLD and CALM agree): the source counts the
  words that agree. DOG rules out two words and CAT one, and \<open>order_domain_values\<close>
  returns DOG before CAT, in whichever order the domain of \<open>slot_a\<close> is visited.
\<close>

theorem order_domain_values_counts_support:
  "enforce_node_consistency (chain_puzzle vocabulary8) (init_domains (chain_puzzle vocabulary8)) =
     Inr [(slot_a, [''DOG'', ''CAT'']), (slot_b, [''COLD'', ''CALM'', ''DAMP'']),
        (slot_c, [''DREAM'', ''MAGIC'', ''PIANO''])] \<and>
   ac3 (chain_puzzle vocabulary8) None
       [(slot_a, [''DOG'', ''CAT'']), (slot_b, [''COLD'', ''CALM'', ''DAMP'']),
        (slot_c, [''DREAM'', ''MAGIC'', ''PIANO''])] =
     Inr (True,
       [(slot_a, [''DOG'', ''CAT'']), (slot_b, [''COLD'', ''CALM'', ''DAMP'']),
        (slot_c, [''DREAM'', ''MAGIC'', ''PIANO''])]) \<and>
   count_neighbors (chain_puzzle vocabulary8)
       [(slot_a, [''DOG'', ''CAT'']), (slot_b, [''COLD'', ''CALM'', ''DAMP'']),
        (slot_c, [''DREAM'', ''MAGIC'', ''PIANO''])]
       [] slot_a ''DOG'' (neighbors (chain_puzzle vocabulary8) slot_a) 0 = Inr 1 \<and>
   count_neighbors (chain_puzzle vocabulary8)
       [(slot_a, [''DOG'', ''CAT'']), (slot_b, [''COLD'', ''CALM'', ''DAMP'']),
        (slot_c, [''DREAM'', ''MAGIC'', ''PIANO''])]
       [] slot_a ''CAT'' (neighbors (chain_puzzle vocabulary8) slot_a) 0 = Inr 2 \<and>
   order_domain_values (chain_puzzle vocabulary8) slot_a []
       [(slot_a, [''DOG'', ''CAT'']), (slot_b, [''COLD'', ''CALM'', ''DAMP'']),
        (slot_c, [''DREAM'', ''MAGIC'', ''PIANO''])] =
     Inr [''DOG'', ''CAT''] \<and>
   order_domain_values (chain_puzzle vocabulary8) slot_a []
       [(slot_a, [''CAT'', ''DOG'']), (slot_b, [''COLD'', ''CALM'', ''DAMP'']),
        (slot_c, [''DREAM'', ''MAGIC'', ''PIANO''])] =
     Inr [''DOG'', ''CAT'']"
  by code_simp

end
